theory Spec2Isabelle
  imports Main "HOL-Library.AList"
begin

section \<open>Strings\<close>

text \<open>
  JavaScript strings are modelled as \<^typ>\<open>string\<close>. A \<^typ>\<open>char\<close> stands for one code unit
  below \<open>0x100\<close>; code units above that are not representable. \<open>String.prototype.trim\<close>
  strips white space and line terminators from both ends; of those, the ones below \<open>0x100\<close>
  are TAB, LF, VT, FF, CR, SPACE and NBSP.
\<close>

definition isWhiteSpace :: "char \<Rightarrow> bool" where
  "isWhiteSpace c =
     (c \<in> set [CHR 0x09, CHR 0x0A, CHR 0x0B, CHR 0x0C, CHR 0x0D, CHR 0x20, CHR 0xA0])"

definition trim :: "string \<Rightarrow> string" where
  "trim s = rev (dropWhile isWhiteSpace (rev (dropWhile isWhiteSpace s)))"

text \<open>Decimal rendering of a number in a template literal.\<close>

definition digit_char :: "nat \<Rightarrow> char" where
  "digit_char k = char_of (48 + k)"

fun decimal :: "nat \<Rightarrow> string" where
  "decimal n = (if n < 10 then [digit_char n] else decimal (n div 10) @ [digit_char (n mod 10)])"

declare decimal.simps [simp del]

definition digit_value :: "char \<Rightarrow> nat" where
  "digit_value c = of_char c - 48"

definition read_decimal :: "string \<Rightarrow> nat" where
  "read_decimal cs = foldl (\<lambda>acc c. 10 * acc + digit_value c) 0 cs"


section \<open>The document tree\<close>

text \<open>
  The DOM is a store of elements addressed by node number. Elements are never deallocated,
  so a reference held across an \<open>await\<close> stays valid; \<open>document.createElement\<close>
  allocates the next number. The tree structure is in the \<open>children\<close> lists alone; a
  parent is found by looking for the element that lists the node as a child. An element
  carries its text content, which is what \<open>textContent\<close> reads, and the markup last
  assigned through \<open>innerHTML\<close> as fields; text nodes are not separate entries of the
  store, and the text of an element is not recomputed when an element is added below it
  (the program reads the text of code blocks only, and adds nothing inside one).
  Operations on a number that is not allocated do nothing.
\<close>

type_synonym node = nat

record element =
  tag :: string
  classes :: "string list"
  attrs :: "(string \<times> string) list"
  content :: string
  markup :: string
  children :: "node list"

type_synonym dom = "element list"

definition tagName :: "dom \<Rightarrow> node \<Rightarrow> string" where
  "tagName d n = (if n < length d then tag (d ! n) else [])"

definition classList :: "dom \<Rightarrow> node \<Rightarrow> string list" where
  "classList d n = (if n < length d then classes (d ! n) else [])"

definition textContent :: "dom \<Rightarrow> node \<Rightarrow> string" where
  "textContent d n = (if n < length d then content (d ! n) else [])"

definition innerHTML :: "dom \<Rightarrow> node \<Rightarrow> string" where
  "innerHTML d n = (if n < length d then markup (d ! n) else [])"

definition childNodes :: "dom \<Rightarrow> node \<Rightarrow> node list" where
  "childNodes d n = (if n < length d then children (d ! n) else [])"

definition hasAttribute :: "dom \<Rightarrow> node \<Rightarrow> string \<Rightarrow> bool" where
  "hasAttribute d n a = (n < length d \<and> map_of (attrs (d ! n)) a \<noteq> None)"

definition parentElement :: "dom \<Rightarrow> node \<Rightarrow> node option" where
  "parentElement d n = find (\<lambda>p. n \<in> set (children (d ! p))) [0..<length d]"

definition modify :: "dom \<Rightarrow> node \<Rightarrow> (element \<Rightarrow> element) \<Rightarrow> dom" where
  "modify d n f = (if n < length d then d[n := f (d ! n)] else d)"

definition setAttribute :: "dom \<Rightarrow> node \<Rightarrow> string \<Rightarrow> string \<Rightarrow> dom" where
  "setAttribute d n a v = modify d n (\<lambda>e. e\<lparr>attrs := AList.update a v (attrs e)\<rparr>)"

definition removeAttribute :: "dom \<Rightarrow> node \<Rightarrow> string \<Rightarrow> dom" where
  "removeAttribute d n a = modify d n (\<lambda>e. e\<lparr>attrs := AList.delete a (attrs e)\<rparr>)"

definition classList_add :: "dom \<Rightarrow> node \<Rightarrow> string \<Rightarrow> dom" where
  "classList_add d n c =
     modify d n (\<lambda>e. if c \<in> set (classes e) then e else e\<lparr>classes := classes e @ [c]\<rparr>)"

definition set_className :: "dom \<Rightarrow> node \<Rightarrow> string \<Rightarrow> dom" where
  "set_className d n c = modify d n (\<lambda>e. e\<lparr>classes := [c]\<rparr>)"

text \<open>
  What the HTML parser of the browser makes of a markup string: the text content of the
  result and its elements in document order, whose child references count from the first
  of them, with the top-level ones listed as roots. The parser is not part of the program;
  a value of this type stands for a markup string together with its parse.
\<close>

record parsed_html =
  source :: string
  inner_text :: string
  nodes :: "element list"
  roots :: "nat list"

definition relocate :: "nat \<Rightarrow> element \<Rightarrow> element" where
  "relocate base e = e\<lparr>children := map (\<lambda>k. base + k) (children e)\<rparr>"

text \<open>
  \<open>element.innerHTML = markup\<close>: the parsed elements are allocated at the end of the store
  and the top-level ones become the children of the element, in place of those it had; its
  text content is that of the parsed markup.
\<close>

definition set_innerHTML :: "dom \<Rightarrow> node \<Rightarrow> parsed_html \<Rightarrow> dom" where
  "set_innerHTML d n h =
     modify (d @ map (relocate (length d)) (nodes h)) n
       (\<lambda>e. e\<lparr>markup := source h, content := inner_text h,
              children := map (\<lambda>k. length d + k) (roots h)\<rparr>)"

definition set_textContent :: "dom \<Rightarrow> node \<Rightarrow> string \<Rightarrow> dom" where
  "set_textContent d n t = modify d n (\<lambda>e. e\<lparr>content := t\<rparr>)"

definition createElement :: "dom \<Rightarrow> string \<Rightarrow> dom \<times> node" where
  "createElement d t =
     (d @ [\<lparr>tag = t, classes = [], attrs = [], content = [], markup = [], children = []\<rparr>],
      length d)"

fun insert_after :: "node \<Rightarrow> node \<Rightarrow> node list \<Rightarrow> node list" where
  "insert_after x y [] = []"
| "insert_after x y (z # zs) = (if z = x then z # y # zs else z # insert_after x y zs)"

text \<open>
  \<open>target.insertAdjacentElement('afterend', el)\<close>: with no parent there is nowhere to
  insert and the call returns null; otherwise \<open>el\<close> becomes the next sibling of the target.
\<close>

definition insertAdjacentElement_afterend :: "dom \<Rightarrow> node \<Rightarrow> node \<Rightarrow> dom" where
  "insertAdjacentElement_afterend d target el =
     (case parentElement d target of
        None \<Rightarrow> d
      | Some p \<Rightarrow> modify d p (\<lambda>e. e\<lparr>children := insert_after target el (children e)\<rparr>))"

text \<open>
  The proper descendants of a node in document order. The recursion follows child
  references through the store, so it is bounded by a depth; \<open>querySelectorAll\<close> explores
  to a depth of the number of allocated elements, which no tree in the store exceeds.
\<close>

fun descendants :: "nat \<Rightarrow> dom \<Rightarrow> node \<Rightarrow> node list" where
  "descendants 0 d n = []"
| "descendants (Suc k) d n = concat (map (\<lambda>c. c # descendants k d c) (childNodes d n))"

text \<open>The selector \<open>code.language-mermaid\<close>; tag names of HTML elements read in upper case.\<close>

definition matches_code_language_mermaid :: "dom \<Rightarrow> node \<Rightarrow> bool" where
  "matches_code_language_mermaid d n =
     (tagName d n = ''CODE'' \<and> ''language-mermaid'' \<in> set (classList d n))"

definition querySelectorAll :: "dom \<Rightarrow> node \<Rightarrow> node list" where
  "querySelectorAll d root = filter (matches_code_language_mermaid d) (descendants (length d) d root)"


section \<open>The diagram renderer and the module state\<close>

datatype "value" = Boolean bool | String string | Number int | Undefined

type_synonym MermaidConfig = "string \<rightharpoonup> value"

text \<open>What a rejected render promise carries: an \<open>Error\<close> with its message, or any other value.\<close>

datatype thrown = ErrorObject string | OtherValue

text \<open>
  A resolved render carries the SVG markup of its \<open>svg\<close> field, here with what the
  parser will make of it when it is assigned to \<open>innerHTML\<close>.
\<close>

datatype outcome = Resolved parsed_html | Rejected thrown

text \<open>
  The trace records, in order, the calls made to \<open>mermaid.render\<close> (identifier, source),
  the settlement of each call as the awaiting code resumes, and the calls to
  \<open>console.error\<close>.
\<close>

datatype event =
    RenderCall string string
  | RenderSettled string outcome
  | ConsoleError thrown

text \<open>
  The module-level variables (\<open>mermaidInitialized\<close>, \<open>mermaidIdCounter\<close>), the
  configuration last passed to \<open>mermaid.initialize\<close>, the refs of one component
  instance (\<open>containerRef\<close>, \<open>renderingRef\<close>), the document and the trace. The counter is a
  JavaScript number; it is exact below \<open>2 ^ 53\<close> and modelled as a natural number.
\<close>

record state =
  mermaidInitialized :: bool
  mermaid_config :: "MermaidConfig option"
  mermaidIdCounter :: nat
  containerRef :: "node option"
  renderingRef :: "string set"
  document :: dom
  trace :: "event list"

definition defaultMermaidConfig :: MermaidConfig where
  "defaultMermaidConfig =
     [''startOnLoad'' \<mapsto> Boolean False,
      ''theme'' \<mapsto> String ''default'',
      ''securityLevel'' \<mapsto> String ''loose'',
      ''fontFamily'' \<mapsto> String ''inherit'']"

definition mermaid_initialize :: "MermaidConfig \<Rightarrow> state \<Rightarrow> state" where
  "mermaid_initialize c s = s\<lparr>mermaid_config := Some c\<rparr>"

text \<open>Object spread: the properties of the later object win; an absent argument spreads nothing.\<close>

definition spread :: "MermaidConfig \<Rightarrow> MermaidConfig option \<Rightarrow> MermaidConfig" where
  "spread base config = (case config of None \<Rightarrow> base | Some c \<Rightarrow> base ++ c)"

definition initializeMermaid :: "MermaidConfig option \<Rightarrow> state \<Rightarrow> state" where
  "initializeMermaid config s =
     (mermaid_initialize (spread defaultMermaidConfig config) s)\<lparr>mermaidInitialized := True\<rparr>"

text \<open>The first effect of the component, run on mount and whenever \<open>mermaidConfig\<close> changes.\<close>

definition initialize_effect :: "MermaidConfig option \<Rightarrow> state \<Rightarrow> state" where
  "initialize_effect mermaidConfig s =
     (if \<not> mermaidInitialized s then initializeMermaid mermaidConfig s
      else case mermaidConfig of
             Some c \<Rightarrow> mermaid_initialize (defaultMermaidConfig ++ c) s
           | None \<Rightarrow> s)"

text \<open>The template literal: the number in decimal after \<open>mermaid-diagram-\<close>.\<close>

definition diagram_id :: "nat \<Rightarrow> string" where
  "diagram_id n = ''mermaid-diagram-'' @ decimal n"

text \<open>The pre-increment \<open>++mermaidIdCounter\<close> yields the incremented value.\<close>

definition generateMermaidId :: "state \<Rightarrow> string \<times> state" where
  "generateMermaidId s =
     (diagram_id (Suc (mermaidIdCounter s)),
      s\<lparr>mermaidIdCounter := Suc (mermaidIdCounter s)\<rparr>)"


section \<open>processMermaidBlocks\<close>

text \<open>
  One iteration of the loop up to the \<open>await\<close>: the result is the state and, when the
  iteration reached the render call, the locals \<open>(preElement, mermaidSource, diagramId)\<close>;
  \<open>None\<close> is a \<open>continue\<close>.
\<close>

definition loop_body :: "state \<Rightarrow> node \<Rightarrow> state \<times> (node \<times> string \<times> string) option" where
  "loop_body s codeBlock =
     (if hasAttribute (document s) codeBlock ''data-mermaid-processed'' then (s, None)
      else case parentElement (document s) codeBlock of
        None \<Rightarrow> (s, None)
      | Some preElement \<Rightarrow>
          if tagName (document s) preElement \<noteq> ''PRE'' then (s, None)
          else let mermaidSource = trim (textContent (document s) codeBlock) in
            if mermaidSource = [] then (s, None)
            else let (diagramId, s1) = generateMermaidId s in
              if mermaidSource \<in> renderingRef s1 then (s1, None)
              else
                (s1\<lparr>renderingRef := insert mermaidSource (renderingRef s1),
                    document :=
                      setAttribute (document s1) codeBlock ''data-mermaid-processed'' ''true'',
                    trace := trace s1 @ [RenderCall diagramId mermaidSource]\<rparr>,
                 Some (preElement, mermaidSource, diagramId)))"

text \<open>
  The function is asynchronous: a call runs until the first \<open>await mermaid.render\<close> and
  is suspended there; it resumes when the render settles. A suspended call keeps its local
  variables and the rest of the snapshot of code blocks it iterates over.
\<close>

record suspension =
  codeBlock :: node
  preElement :: node
  mermaidSource :: string
  diagramId :: string
  remaining :: "node list"

fun scan :: "state \<Rightarrow> node list \<Rightarrow> state \<times> suspension option" where
  "scan s [] = (s, None)"
| "scan s (b # rest) =
     (case loop_body s b of
        (s', None) \<Rightarrow> scan s' rest
      | (s', Some (pre, src, ident)) \<Rightarrow>
          (s', Some \<lparr>codeBlock = b, preElement = pre, mermaidSource = src,
                     diagramId = ident, remaining = rest\<rparr>))"

text \<open>The \<open>try\<close>/\<open>catch\<close>/\<open>finally\<close> after the render has settled.\<close>

definition error_text :: "thrown \<Rightarrow> string" where
  "error_text error =
     ''Mermaid Error: '' @
       (case error of ErrorObject message \<Rightarrow> message | OtherValue \<Rightarrow> ''Failed to render diagram'')"

definition on_success :: "dom \<Rightarrow> suspension \<Rightarrow> parsed_html \<Rightarrow> dom" where
  "on_success d p svg =
     (let (d1, mermaidContainer) = createElement d ''DIV'';
          d2 = set_className d1 mermaidContainer ''mermaid-container'';
          d3 = set_innerHTML d2 mermaidContainer svg;
          d4 = insertAdjacentElement_afterend d3 (preElement p) mermaidContainer
      in classList_add d4 (preElement p) ''mermaid-hidden'')"

definition on_failure :: "dom \<Rightarrow> suspension \<Rightarrow> thrown \<Rightarrow> dom" where
  "on_failure d p error =
     (let (d1, errorContainer) = createElement d ''DIV'';
          d2 = set_className d1 errorContainer ''mermaid-error'';
          d3 = set_textContent d2 errorContainer (error_text error);
          d4 = insertAdjacentElement_afterend d3 (preElement p) errorContainer
      in removeAttribute d4 (codeBlock p) ''data-mermaid-processed'')"

definition settle :: "state \<Rightarrow> suspension \<Rightarrow> outcome \<Rightarrow> state" where
  "settle s p out =
     (let s0 = s\<lparr>trace := trace s @ [RenderSettled (diagramId p) out]\<rparr>;
          s1 = (case out of
                  Resolved svg \<Rightarrow> s0\<lparr>document := on_success (document s0) p svg\<rparr>
                | Rejected error \<Rightarrow>
                    s0\<lparr>trace := trace s0 @ [ConsoleError error],
                       document := on_failure (document s0) p error\<rparr>)
      in s1\<lparr>renderingRef := renderingRef s1 - {mermaidSource p}\<rparr>)"

definition resume :: "state \<Rightarrow> suspension \<Rightarrow> outcome \<Rightarrow> state \<times> suspension option" where
  "resume s p out = scan (settle s p out) (remaining p)"

definition processMermaidBlocks :: "state \<Rightarrow> state \<times> suspension option" where
  "processMermaidBlocks s =
     (case containerRef s of
        None \<Rightarrow> (s, None)
      | Some container \<Rightarrow> scan s (querySelectorAll (document s) container))"

text \<open>
  One call run to completion on its own: each render settles as the renderer \<open>render\<close>
  decides from the identifier and the source it was called with, and the call resumes at once.
  Every call has a fresh identifier, so \<open>render\<close> can give each call its own outcome.
\<close>

function drive :: "(string \<Rightarrow> string \<Rightarrow> outcome) \<Rightarrow> state \<times> suspension option \<Rightarrow> state" where
  "drive render (s, None) = s"
| "drive render (s, Some p) =
     drive render (resume s p (render (diagramId p) (mermaidSource p)))"
  by pat_completeness auto
termination
proof (relation "measure (\<lambda>(render, s, po). case po of None \<Rightarrow> 0 | Some p \<Rightarrow> Suc (length (remaining p)))")
  show "wf (measure (\<lambda>(render, s, po). case po of None \<Rightarrow> 0 | Some p \<Rightarrow> Suc (length (remaining p))))"
    by simp
next
  fix render :: "string \<Rightarrow> string \<Rightarrow> outcome" and s :: state and p :: suspension
  have shorter: "length (remaining q) < length bs" if "scan t bs = (t', Some q)" for t t' bs q
    using that
  proof (induction bs arbitrary: t)
    case Nil
    then show ?case by simp
  next
    case (Cons b bs)
    then show ?case
      by (fastforce split: prod.splits option.splits)
  qed
  obtain s' po where r: "resume s p (render (diagramId p) (mermaidSource p)) = (s', po)"
    by (cases "resume s p (render (diagramId p) (mermaidSource p))")
  show "((render, resume s p (render (diagramId p) (mermaidSource p))), render, s, Some p)
        \<in> measure (\<lambda>(render, s, po). case po of None \<Rightarrow> 0 | Some p \<Rightarrow> Suc (length (remaining p)))"
    using r shorter [of "settle s p (render (diagramId p) (mermaidSource p))" "remaining p" s']
    by (auto simp: resume_def split: option.splits)
qed

definition run_pass :: "(string \<Rightarrow> string \<Rightarrow> outcome) \<Rightarrow> state \<Rightarrow> state" where
  "run_pass render s = drive render (processMermaidBlocks s)"


section \<open>Interleaved calls\<close>

text \<open>
  The event loop runs one piece of code at a time. A system is the state together with the
  suspended calls of \<open>processMermaidBlocks\<close>. A step is one of: a timer fires and a new call
  runs up to its first \<open>await\<close>; the render of a suspended call settles, with any outcome,
  and that call runs on to its next \<open>await\<close> or its end; the host changes the document
  (allocated elements stay allocated); the container ref is bound or cleared.
\<close>

type_synonym system = "state \<times> suspension list"

definition pending :: "suspension option \<Rightarrow> suspension list" where
  "pending po = (case po of None \<Rightarrow> [] | Some p \<Rightarrow> [p])"

inductive step :: "system \<Rightarrow> system \<Rightarrow> bool" where
  invoke: "processMermaidBlocks s = (s', po) \<Longrightarrow> step (s, ps) (s', ps @ pending po)"
| settled: "i < length ps \<Longrightarrow> resume s (ps ! i) out = (s', po) \<Longrightarrow>
     step (s, ps) (s', take i ps @ pending po @ drop (Suc i) ps)"
| mutated: "length (document s) \<le> length d' \<Longrightarrow> step (s, ps) (s\<lparr>document := d'\<rparr>, ps)"
| rebound: "step (s, ps) (s\<lparr>containerRef := c\<rparr>, ps)"

text \<open>
  A component instance starts with an empty Rendering Set, an empty trace and no call in
  progress.
\<close>

inductive reachable :: "system \<Rightarrow> bool" where
  initial: "renderingRef s = {} \<Longrightarrow> trace s = [] \<Longrightarrow> reachable (s, [])"
| after: "reachable x \<Longrightarrow> step x y \<Longrightarrow> reachable y"


text \<open>
  The refs belong to a component instance: every mounted instance has a container and a
  Rendering Set of its own (\<open>useRef\<close>), while the identifier counter, the renderer and the
  document are shared by all instances. The state holds the refs of the instance whose code
  runs; \<open>as_instance\<close> lets another instance run, with its refs.
\<close>

record refs =
  container :: "node option"
  rendering :: "string set"

definition as_instance :: "refs \<Rightarrow> state \<Rightarrow> state" where
  "as_instance i s = s\<lparr>containerRef := container i, renderingRef := rendering i\<rparr>"


section \<open>Notions used in the properties\<close>

text \<open>The calls to the renderer recorded in a trace, as \<open>(identifier, source)\<close> pairs.\<close>

fun render_calls :: "event list \<Rightarrow> (string \<times> string) list" where
  "render_calls [] = []"
| "render_calls (RenderCall i t # es) = (i, t) # render_calls es"
| "render_calls (e # es) = render_calls es"

text \<open>
  A stretch of trace in which renders are made one at a time: a call is made only when no
  render is in flight, and the next event of the renderer is the settlement of that call.
  The argument is the identifier of the render in flight, if there is one.
\<close>

fun sequential :: "string option \<Rightarrow> event list \<Rightarrow> bool" where
  "sequential fl [] = (fl = None)"
| "sequential fl (RenderCall i t # es) = (fl = None \<and> sequential (Some i) es)"
| "sequential fl (RenderSettled i out # es) = (fl = Some i \<and> sequential None es)"
| "sequential fl (ConsoleError e # es) = sequential fl es"

text \<open>The numbers in the identifiers of those calls: what follows \<open>mermaid-diagram-\<close>.\<close>

definition call_numbers :: "event list \<Rightarrow> nat list" where
  "call_numbers tr = map (\<lambda>(i, t). read_decimal (drop 16 i)) (render_calls tr)"

text \<open>
  The identifiers given to the renderer so far carry strictly increasing numbers, none
  above the counter.
\<close>

definition ids_inv :: "state \<Rightarrow> bool" where
  "ids_inv s =
     (sorted_wrt (<) (call_numbers (trace s)) \<and>
      (\<forall>n\<in>set (call_numbers (trace s)). n \<le> mermaidIdCounter s) \<and>
      map fst (render_calls (trace s)) =
        map diagram_id (call_numbers (trace s)))"

text \<open>
  A code block that passes the first three checks of the loop: not marked processed, inside
  a \<open>PRE\<close> element, with text left after trimming.
\<close>

definition candidate :: "dom \<Rightarrow> node \<Rightarrow> bool" where
  "candidate d b =
     (\<not> hasAttribute d b ''data-mermaid-processed'' \<and>
      (case parentElement d b of None \<Rightarrow> False | Some pre \<Rightarrow> tagName d pre = ''PRE'') \<and>
      trim (textContent d b) \<noteq> [])"

text \<open>The element that follows a node among the children of its parent.\<close>

fun element_after :: "node \<Rightarrow> node list \<Rightarrow> node option" where
  "element_after x [] = None"
| "element_after x (z # zs) =
     (if z = x then (case zs of [] \<Rightarrow> None | y # ys \<Rightarrow> Some y) else element_after x zs)"

definition nextElementSibling :: "dom \<Rightarrow> node \<Rightarrow> node option" where
  "nextElementSibling d n =
     (case parentElement d n of None \<Rightarrow> None | Some p \<Rightarrow> element_after n (children (d ! p)))"

text \<open>
  The ancestors of a node, nearest first; the search goes up as many steps as there are
  elements, which covers every ancestor in a tree.
\<close>

fun ancestors :: "nat \<Rightarrow> dom \<Rightarrow> node \<Rightarrow> node list" where
  "ancestors 0 d n = []"
| "ancestors (Suc k) d n =
     (case parentElement d n of None \<Rightarrow> [] | Some q \<Rightarrow> q # ancestors k d q)"

text \<open>
  The document still holds the block as a suspended call left it: the code block inside its
  \<open>PRE\<close> element, with the text that is being rendered.
\<close>

definition awaits :: "dom \<Rightarrow> suspension \<Rightarrow> bool" where
  "awaits d p =
     (codeBlock p < length d \<and> preElement p < length d \<and>
      parentElement d (codeBlock p) = Some (preElement p) \<and>
      tagName d (preElement p) = ''PRE'' \<and>
      trim (textContent d (codeBlock p)) = mermaidSource p \<and>
      mermaidSource p \<noteq> [])"

text \<open>
  Every chain of child references below a node has at most \<open>k\<close> links. A tree of the
  store with \<open>n\<close> elements has no chain of more than \<open>n - 1\<close> links, which is the depth
  \<open>querySelectorAll\<close> explores.
\<close>

fun depth_within :: "nat \<Rightarrow> dom \<Rightarrow> node \<Rightarrow> bool" where
  "depth_within 0 d n = (childNodes d n = [])"
| "depth_within (Suc k) d n = (\<forall>c\<in>set (childNodes d n). depth_within k d c)"

text \<open>
  What the loop and the settlements keep of a document while they add to it: the elements
  allocated before keep their tag, their being of class \<open>language-mermaid\<close> and their
  children among the elements allocated before, in order; the elements allocated since have
  no child among the earlier ones and the selector matches none of them.
\<close>

definition grown :: "dom \<Rightarrow> dom \<Rightarrow> bool" where
  "grown d d' =
     (length d \<le> length d' \<and>
      (\<forall>m<length d.
         tag (d' ! m) = tag (d ! m) \<and>
         (''language-mermaid'' \<in> set (classes (d' ! m))) =
           (''language-mermaid'' \<in> set (classes (d ! m)))) \<and>
      (\<forall>m<length d'.
         filter (\<lambda>c. c < length d) (children (d' ! m)) =
           (if m < length d then filter (\<lambda>c. c < length d) (children (d ! m)) else [])) \<and>
      (\<forall>m<length d'. length d \<le> m \<longrightarrow>
         \<not> (tag (d' ! m) = ''CODE'' \<and> ''language-mermaid'' \<in> set (classes (d' ! m)))))"

text \<open>
  The elements a successful render adds to a document of \<open>base\<close> elements: the Diagram
  Output container, then the elements parsed from the markup, which are its descendants.
\<close>

definition diagram_element :: "nat \<Rightarrow> parsed_html \<Rightarrow> element" where
  "diagram_element base h =
     \<lparr>tag = ''DIV'', classes = [''mermaid-container''], attrs = [], content = inner_text h,
      markup = source h, children = map (\<lambda>k. Suc (base + k)) (roots h)\<rparr>"

definition rendered :: "nat \<Rightarrow> parsed_html \<Rightarrow> element list" where
  "rendered base h = diagram_element base h # map (relocate (Suc base)) (nodes h)"

text \<open>Markup in which the parser finds no element that the selector matches.\<close>

definition plain :: "parsed_html \<Rightarrow> bool" where
  "plain h =
     list_all (\<lambda>e. \<not> (tag e = ''CODE'' \<and> ''language-mermaid'' \<in> set (classes e))) (nodes h)"

definition plain_outcome :: "outcome \<Rightarrow> bool" where
  "plain_outcome out = (case out of Resolved h \<Rightarrow> plain h | Rejected e \<Rightarrow> True)"

text \<open>
  The suspended calls refer to elements of the store: the code block and the \<open>PRE\<close>
  element each of them holds, and the blocks of its snapshot that it has yet to visit.
\<close>

definition allocated :: "system \<Rightarrow> bool" where
  "allocated sys =
     (\<forall>p\<in>set (snd sys).
        codeBlock p < length (document (fst sys)) \<and>
        preElement p < length (document (fst sys)) \<and>
        (\<forall>b\<in>set (remaining p). b < length (document (fst sys))))"


text \<open>The Error Output containers among the children of an element.\<close>

definition error_outputs :: "dom \<Rightarrow> node \<Rightarrow> node list" where
  "error_outputs d par =
     filter (\<lambda>m. ''mermaid-error'' \<in> set (classList d m)) (childNodes d par)"

text \<open>
  One attempt on a block whose render is rejected: the loop visits the block and, when it
  has called the renderer, the call resumes with the rejection. A run of such attempts on
  the same block takes the rejection of each attempt in turn.
\<close>

definition failed_attempt :: "node \<Rightarrow> state \<Rightarrow> thrown \<Rightarrow> state" where
  "failed_attempt b s e =
     (case scan s [b] of
        (s1, None) \<Rightarrow> s1
      | (s1, Some p) \<Rightarrow> fst (resume s1 p (Rejected e)))"

definition failed_attempts :: "node \<Rightarrow> state \<Rightarrow> thrown list \<Rightarrow> state" where
  "failed_attempts b s es = foldl (failed_attempt b) s es"

text \<open>
  Calls of \<open>processMermaidBlocks\<close> made one after the other, each run to its end before
  the next starts; the renderer decides the outcome of every render.
\<close>

fun passes :: "(string \<Rightarrow> string \<Rightarrow> outcome) \<Rightarrow> nat \<Rightarrow> state \<Rightarrow> state" where
  "passes render 0 s = s"
| "passes render (Suc n) s = passes render n (run_pass render s)"

definition error_element :: "thrown \<Rightarrow> element" where
  "error_element e =
     \<lparr>tag = ''DIV'', classes = [''mermaid-error''], attrs = [], content = error_text e,
      markup = [], children = []\<rparr>"

text \<open>
  The renders in flight are those the suspended calls await: no two of them are for the
  same text, and the Rendering Set holds exactly their texts.
\<close>

definition in_flight_inv :: "system \<Rightarrow> bool" where
  "in_flight_inv sys =
     (distinct (map mermaidSource (snd sys)) \<and>
      renderingRef (fst sys) = set (map mermaidSource (snd sys)))"

text \<open>
  A run of activations of the component's first effect, each with its \<open>mermaidConfig\<close>,
  and the configuration supplied last in such a run, if any.
\<close>

definition activations :: "MermaidConfig option list \<Rightarrow> state \<Rightarrow> state" where
  "activations cs s = foldl (\<lambda>s c. initialize_effect c s) s cs"

definition last_supplied :: "MermaidConfig option list \<Rightarrow> MermaidConfig option" where
  "last_supplied cs = foldl (\<lambda>acc c. case c of None \<Rightarrow> acc | Some c' \<Rightarrow> Some c') None cs"


section \<open>Example pages\<close>

definition elem :: "string \<Rightarrow> string list \<Rightarrow> string \<Rightarrow> node list \<Rightarrow> element" where
  "elem t cs txt ch =
     \<lparr>tag = t, classes = cs, attrs = [], content = txt, markup = [], children = ch\<rparr>"

text \<open>The markup \<open><svg>ok</svg>\<close>: one \<open>svg\<close> element holding the text \<open>ok\<close>.\<close>

definition svg_ok :: parsed_html where
  "svg_ok =
     \<lparr>source = ''<svg>ok</svg>'', inner_text = ''ok'',
      nodes = [elem ''svg'' [] ''ok'' []], roots = [0]\<rparr>"

text \<open>A freshly loaded page whose container is element 0 of the document.\<close>

definition page :: "dom \<Rightarrow> state" where
  "page d =
     \<lparr>mermaidInitialized = False, mermaid_config = None, mermaidIdCounter = 0,
      containerRef = Some 0, renderingRef = {}, document = d, trace = []\<rparr>"

definition one_block :: dom where
  "one_block =
     [elem ''DIV'' [] [] [1],
      elem ''PRE'' [] [] [2],
      elem ''CODE'' [''language-mermaid''] ''flowchart TB; A-->B'' []]"

definition two_identical_blocks :: dom where
  "two_identical_blocks =
     [elem ''DIV'' [] [] [1, 3],
      elem ''PRE'' [] [] [2],
      elem ''CODE'' [''language-mermaid''] ''graph TD; A-->B'' [],
      elem ''PRE'' [] [] [4],
      elem ''CODE'' [''language-mermaid''] ''graph TD; A-->B'' []]"

definition two_different_blocks :: dom where
  "two_different_blocks =
     [elem ''DIV'' [] [] [1, 3],
      elem ''PRE'' [] [] [2],
      elem ''CODE'' [''language-mermaid''] ''graph TD; A-->B'' [],
      elem ''PRE'' [] [] [4],
      elem ''CODE'' [''language-mermaid''] '' graph LR; C-->D '' []]"

definition three_blocks :: dom where
  "three_blocks =
     [elem ''DIV'' [] [] [1, 3, 5],
      elem ''PRE'' [] [] [2],
      elem ''CODE'' [''language-mermaid''] ''graph TD; A-->B'' [],
      elem ''PRE'' [] [] [4],
      elem ''CODE'' [''language-mermaid''] ''graph TD; A-->B'' [],
      elem ''PRE'' [] [] [6],
      elem ''CODE'' [''language-mermaid''] ''graph LR; C-->D'' []]"

text \<open>A page with two containers, each with a block of the same text.\<close>

definition two_containers :: dom where
  "two_containers =
     [elem ''DIV'' [] [] [1],
      elem ''PRE'' [] [] [2],
      elem ''CODE'' [''language-mermaid''] ''graph TD; A-->B'' [],
      elem ''DIV'' [] [] [4],
      elem ''PRE'' [] [] [5],
      elem ''CODE'' [''language-mermaid''] ''graph TD; A-->B'' []]"

text \<open>A second instance, mounted on the second container, with nothing rendering yet.\<close>

definition second_instance :: refs where
  "second_instance = \<lparr>container = Some 3, rendering = {}\<rparr>"

text \<open>Markup that holds a diagram source block of its own.\<close>

definition svg_with_block :: parsed_html where
  "svg_with_block =
     \<lparr>source = ''<pre><code class=\"language-mermaid\">graph TD; X-->Y</code></pre>'',
      inner_text = ''graph TD; X-->Y'',
      nodes = [elem ''PRE'' [] ''graph TD; X-->Y'' [1],
               elem ''CODE'' [''language-mermaid''] ''graph TD; X-->Y'' []],
      roots = [0]\<rparr>"

text \<open>\<open>element.replaceChildren()\<close>, by which the host empties an element.\<close>

definition replaceChildren :: "dom \<Rightarrow> node \<Rightarrow> dom" where
  "replaceChildren d n = modify d n (\<lambda>e. e\<lparr>children := []\<rparr>)"

text \<open>\<open>element.remove()\<close>, by which the host takes an element out of its parent.\<close>

definition element_remove :: "dom \<Rightarrow> node \<Rightarrow> dom" where
  "element_remove d n =
     (case parentElement d n of
        None \<Rightarrow> d
      | Some p \<Rightarrow> modify d p (\<lambda>e. e\<lparr>children := removeAll n (children e)\<rparr>))"

text \<open>The first call on a page, suspended at its first render.\<close>

definition first_call :: "dom \<Rightarrow> state" where
  "first_call d = fst (processMermaidBlocks (page d))"

definition one_block_awaiting :: suspension where
  "one_block_awaiting =
     \<lparr>codeBlock = 2, preElement = 1, mermaidSource = ''flowchart TB; A-->B'',
      diagramId = ''mermaid-diagram-1'', remaining = []\<rparr>"

definition two_blocks_awaiting :: suspension where
  "two_blocks_awaiting =
     \<lparr>codeBlock = 2, preElement = 1, mermaidSource = ''graph TD; A-->B'',
      diagramId = ''mermaid-diagram-1'', remaining = [4]\<rparr>"

text \<open>
  The page with one block after its first call has suspended and the host has then emptied
  the container, which leaves the \<open>PRE\<close> element without a parent.
\<close>

definition one_block_detached :: state where
  "one_block_detached =
     (first_call one_block)\<lparr>document := replaceChildren (document (first_call one_block)) 0\<rparr>"

text \<open>
  The page with one block after a first call whose render failed, a second call that has
  suspended at its render of the block, and the host having then removed the \<open>PRE\<close>
  element from the container.
\<close>

definition bad_syntax :: "string \<Rightarrow> string \<Rightarrow> outcome" where
  "bad_syntax i t = Rejected (ErrorObject ''bad syntax'')"

definition one_block_retry :: suspension where
  "one_block_retry =
     \<lparr>codeBlock = 2, preElement = 1, mermaidSource = ''flowchart TB; A-->B'',
      diagramId = ''mermaid-diagram-2'', remaining = []\<rparr>"

definition retry_detached :: state where
  "retry_detached =
     (let s2 = fst (processMermaidBlocks (run_pass bad_syntax (page one_block)))
      in s2\<lparr>document := element_remove (document s2) 1\<rparr>)"

text \<open>Two calls in a row on a page: the second starts while the first awaits its render.\<close>

definition overlapping_calls :: "dom \<Rightarrow> system" where
  "overlapping_calls d =
     (let (s1, p1) = processMermaidBlocks (page d);
          (s2, p2) = processMermaidBlocks s1
      in (s2, pending p1 @ pending p2))"


section \<open>Basic facts\<close>

subsection \<open>Decimal identifiers\<close>

lemma digit_value_digit_char: "k < 10 \<Longrightarrow> digit_value (digit_char k) = k"
  by (simp add: digit_value_def digit_char_def)

lemma read_decimal_snoc: "read_decimal (cs @ [c]) = 10 * read_decimal cs + digit_value c"
  by (simp add: read_decimal_def)

lemma read_decimal_decimal: "read_decimal (decimal n) = n"
proof (induction n rule: decimal.induct)
  case (1 n)
  show ?case
  proof (cases "n < 10")
    case True
    then show ?thesis
      by (subst decimal.simps) (simp add: read_decimal_def digit_value_digit_char)
  next
    case False
    then have "read_decimal (decimal n) = 10 * (n div 10) + n mod 10"
      using "1.IH" by (subst decimal.simps) (simp add: read_decimal_snoc digit_value_digit_char)
    then show ?thesis by simp
  qed
qed

lemma decimal_inject: "decimal m = decimal n \<longleftrightarrow> m = n"
  by (metis read_decimal_decimal)

subsection \<open>The loop\<close>

lemma loop_body_None:
  assumes "loop_body s b = (s', None)"
  shows "s' = s \<or> (s' = s\<lparr>mermaidIdCounter := Suc (mermaidIdCounter s)\<rparr> \<and>
           trim (textContent (document s) b) \<in> renderingRef s)"
  using assms
  by (auto simp: loop_body_def generateMermaidId_def Let_def split: if_splits option.splits)

lemma loop_body_Some:
  assumes "loop_body s b = (s', Some (pre, src, i))"
  shows "src \<notin> renderingRef s \<and> src \<noteq> [] \<and> src = trim (textContent (document s) b) \<and>
         \<not> hasAttribute (document s) b ''data-mermaid-processed'' \<and>
         parentElement (document s) b = Some pre \<and> tagName (document s) pre = ''PRE'' \<and>
         i = diagram_id (Suc (mermaidIdCounter s)) \<and>
         s' = s\<lparr>mermaidIdCounter := Suc (mermaidIdCounter s),
                renderingRef := insert src (renderingRef s),
                document := setAttribute (document s) b ''data-mermaid-processed'' ''true'',
                trace := trace s @ [RenderCall i src]\<rparr>"
  using assms
  by (auto simp: loop_body_def generateMermaidId_def Let_def split: if_splits option.splits)

lemma loop_body_counter:
  "mermaidIdCounter (fst (loop_body s b)) =
     (if candidate (document s) b then Suc (mermaidIdCounter s) else mermaidIdCounter s)"
  by (auto simp: loop_body_def candidate_def generateMermaidId_def Let_def split: option.splits)

lemma loop_body_deferred:
  "candidate (document s) b \<Longrightarrow> trim (textContent (document s) b) \<in> renderingRef s \<Longrightarrow>
     loop_body s b = (s\<lparr>mermaidIdCounter := Suc (mermaidIdCounter s)\<rparr>, None)"
  by (auto simp: loop_body_def candidate_def generateMermaidId_def Let_def split: option.splits)

lemma scan_None:
  "scan s bs = (s', None) \<Longrightarrow>
     mermaidIdCounter s \<le> mermaidIdCounter s' \<and> s' = s\<lparr>mermaidIdCounter := mermaidIdCounter s'\<rparr>"
proof (induction bs arbitrary: s)
  case Nil
  then show ?case by simp
next
  case (Cons b bs)
  obtain s1 r where lb: "loop_body s b = (s1, r)" by (cases "loop_body s b")
  with Cons.prems have r: "r = None" and sc: "scan s1 bs = (s', None)"
    by (auto split: option.splits)
  from lb r loop_body_None [of s b s1]
  have "s1 = s \<or> s1 = s\<lparr>mermaidIdCounter := Suc (mermaidIdCounter s)\<rparr>" by auto
  with Cons.IH [OF sc] show ?case by auto
qed

lemma scan_Some:
  "scan s bs = (s', Some p) \<Longrightarrow>
     \<exists>k xs. mermaidIdCounter s \<le> k \<and> bs = xs @ codeBlock p # remaining p \<and>
       loop_body (s\<lparr>mermaidIdCounter := k\<rparr>) (codeBlock p) =
         (s', Some (preElement p, mermaidSource p, diagramId p))"
proof (induction bs arbitrary: s)
  case Nil
  then show ?case by simp
next
  case (Cons b bs)
  obtain s1 r where lb: "loop_body s b = (s1, r)" by (cases "loop_body s b")
  show ?case
  proof (cases r)
    case None
    with lb Cons.prems have sc: "scan s1 bs = (s', Some p)" by simp
    from lb None loop_body_None [of s b s1]
    have s1: "s1 = s \<or> s1 = s\<lparr>mermaidIdCounter := Suc (mermaidIdCounter s)\<rparr>" by auto
    from Cons.IH [OF sc] obtain k xs where k: "mermaidIdCounter s1 \<le> k"
      and bs: "bs = xs @ codeBlock p # remaining p"
      and l: "loop_body (s1\<lparr>mermaidIdCounter := k\<rparr>) (codeBlock p) =
         (s', Some (preElement p, mermaidSource p, diagramId p))" by blast
    from s1 have "s1\<lparr>mermaidIdCounter := k\<rparr> = s\<lparr>mermaidIdCounter := k\<rparr>" by auto
    moreover from s1 k have "mermaidIdCounter s \<le> k" by auto
    moreover from bs have "b # bs = (b # xs) @ codeBlock p # remaining p" by simp
    ultimately show ?thesis using l by metis
  next
    case (Some t)
    obtain pre src i where t: "t = (pre, src, i)" by (cases t)
    with lb Some Cons.prems
    have p: "p = \<lparr>codeBlock = b, preElement = pre, mermaidSource = src, diagramId = i, remaining = bs\<rparr>"
      and s': "s' = s1" by auto
    have "s\<lparr>mermaidIdCounter := mermaidIdCounter s\<rparr> = s" by simp
    with lb Some t p s' have "loop_body (s\<lparr>mermaidIdCounter := mermaidIdCounter s\<rparr>) (codeBlock p) =
         (s', Some (preElement p, mermaidSource p, diagramId p))" by simp
    moreover from p have "b # bs = [] @ codeBlock p # remaining p" by simp
    ultimately show ?thesis by (metis order_refl)
  qed
qed

lemma scan_renderingRef:
  "scan s bs = (s', po) \<Longrightarrow>
     (case po of None \<Rightarrow> renderingRef s' = renderingRef s
      | Some p \<Rightarrow> mermaidSource p \<notin> renderingRef s \<and>
          renderingRef s' = insert (mermaidSource p) (renderingRef s))"
proof (cases po)
  case None
  assume "scan s bs = (s', po)"
  with None scan_None [of s bs s'] have "s' = s\<lparr>mermaidIdCounter := mermaidIdCounter s'\<rparr>" by simp
  then have "renderingRef s' = renderingRef (s\<lparr>mermaidIdCounter := mermaidIdCounter s'\<rparr>)" by simp
  with None show ?thesis by simp
next
  case (Some p)
  assume "scan s bs = (s', po)"
  with Some scan_Some [of s bs s' p] obtain k where
    "loop_body (s\<lparr>mermaidIdCounter := k\<rparr>) (codeBlock p) =
         (s', Some (preElement p, mermaidSource p, diagramId p))" by auto
  from loop_body_Some [OF this]
  have "mermaidSource p \<notin> renderingRef (s\<lparr>mermaidIdCounter := k\<rparr>)"
    and "s' = s\<lparr>mermaidIdCounter := k\<rparr>\<lparr>mermaidIdCounter := Suc (mermaidIdCounter (s\<lparr>mermaidIdCounter := k\<rparr>)),
                renderingRef := insert (mermaidSource p) (renderingRef (s\<lparr>mermaidIdCounter := k\<rparr>)),
                document := setAttribute (document (s\<lparr>mermaidIdCounter := k\<rparr>)) (codeBlock p) ''data-mermaid-processed'' ''true'',
                trace := trace (s\<lparr>mermaidIdCounter := k\<rparr>) @ [RenderCall (diagramId p) (mermaidSource p)]\<rparr>"
    by blast+
  then have "mermaidSource p \<notin> renderingRef s"
    and "renderingRef s' = insert (mermaidSource p) (renderingRef s)" by simp_all
  with Some show ?thesis by simp
qed

lemma scan_trace:
  "scan s bs = (s', po) \<Longrightarrow>
     mermaidIdCounter s \<le> mermaidIdCounter s' \<and>
     (case po of None \<Rightarrow> trace s' = trace s
      | Some p \<Rightarrow> mermaidIdCounter s < mermaidIdCounter s' \<and>
          diagramId p = diagram_id (mermaidIdCounter s') \<and>
          trace s' = trace s @ [RenderCall (diagramId p) (mermaidSource p)])"
proof (cases po)
  case None
  assume "scan s bs = (s', po)"
  with None scan_None [of s bs s'] have le: "mermaidIdCounter s \<le> mermaidIdCounter s'"
    and "s' = s\<lparr>mermaidIdCounter := mermaidIdCounter s'\<rparr>" by simp_all
  then have "trace s' = trace (s\<lparr>mermaidIdCounter := mermaidIdCounter s'\<rparr>)" by simp
  with None le show ?thesis by simp
next
  case (Some p)
  assume "scan s bs = (s', po)"
  with Some scan_Some [of s bs s' p] obtain k where k: "mermaidIdCounter s \<le> k" and
    "loop_body (s\<lparr>mermaidIdCounter := k\<rparr>) (codeBlock p) =
         (s', Some (preElement p, mermaidSource p, diagramId p))" by auto
  from loop_body_Some [OF this(2)]
  have i: "diagramId p = diagram_id (Suc (mermaidIdCounter (s\<lparr>mermaidIdCounter := k\<rparr>)))"
    and "s' = s\<lparr>mermaidIdCounter := k\<rparr>\<lparr>mermaidIdCounter := Suc (mermaidIdCounter (s\<lparr>mermaidIdCounter := k\<rparr>)),
                renderingRef := insert (mermaidSource p) (renderingRef (s\<lparr>mermaidIdCounter := k\<rparr>)),
                document := setAttribute (document (s\<lparr>mermaidIdCounter := k\<rparr>)) (codeBlock p) ''data-mermaid-processed'' ''true'',
                trace := trace (s\<lparr>mermaidIdCounter := k\<rparr>) @ [RenderCall (diagramId p) (mermaidSource p)]\<rparr>"
    by blast+
  then have "mermaidIdCounter s' = Suc k"
    and "trace s' = trace s @ [RenderCall (diagramId p) (mermaidSource p)]" by simp_all
  with i k Some show ?thesis by simp
qed

lemma settle_renderingRef: "renderingRef (settle s p out) = renderingRef s - {mermaidSource p}"
  by (cases out) (simp_all add: settle_def Let_def)

lemma settle_counter: "mermaidIdCounter (settle s p out) = mermaidIdCounter s"
  by (cases out) (simp_all add: settle_def Let_def)

lemma render_calls_append: "render_calls (xs @ ys) = render_calls xs @ render_calls ys"
  by (induction xs rule: render_calls.induct) simp_all

lemma settle_render_calls: "render_calls (trace (settle s p out)) = render_calls (trace s)"
  by (cases out) (simp_all add: settle_def Let_def render_calls_append)


section \<open>The Rendering Set and the renders in flight\<close>

lemma step_in_flight_inv: "step x y \<Longrightarrow> in_flight_inv x \<Longrightarrow> in_flight_inv y"
proof (induction rule: step.induct)
  case (invoke s s' po ps)
  then show ?case
  proof (cases "containerRef s")
    case None
    with invoke show ?thesis by (simp add: processMermaidBlocks_def in_flight_inv_def pending_def)
  next
    case (Some c)
    with invoke have "scan s (querySelectorAll (document s) c) = (s', po)"
      by (simp add: processMermaidBlocks_def)
    from scan_renderingRef [OF this] invoke.prems show ?thesis
      by (auto simp: in_flight_inv_def pending_def split: option.splits)
  qed
next
  case (settled i ps s out s' po)
  let ?rest = "take i ps @ drop (Suc i) ps"
  from settled have ps: "ps = take i ps @ ps ! i # drop (Suc i) ps"
    by (simp add: id_take_nth_drop)
  from settled.prems have d: "distinct (map mermaidSource ps)" 
    and r: "renderingRef s = set (map mermaidSource ps)" by (simp_all add: in_flight_inv_def)
  from d ps have d': "distinct (map mermaidSource (take i ps @ ps ! i # drop (Suc i) ps))" by simp
  then have notin: "mermaidSource (ps ! i) \<notin> set (map mermaidSource ?rest)" 
    and drest: "distinct (map mermaidSource ?rest)" by auto
  have "set (map mermaidSource ps) = insert (mermaidSource (ps ! i)) (set (map mermaidSource ?rest))"
    by (subst ps) auto
  with r notin have after: "renderingRef (settle s (ps ! i) out) = set (map mermaidSource ?rest)"
    by (auto simp: settle_renderingRef)
  from settled have "scan (settle s (ps ! i) out) (remaining (ps ! i)) = (s', po)"
    by (simp add: resume_def)
  from scan_renderingRef [OF this] after drest show ?case
    by (auto simp: in_flight_inv_def pending_def split: option.splits)
next
  case (mutated s d' ps)
  then show ?case by (simp add: in_flight_inv_def)
next
  case (rebound s ps c)
  then show ?case by (simp add: in_flight_inv_def)
qed

lemma reachable_in_flight_inv: "reachable x \<Longrightarrow> in_flight_inv x"
proof (induction rule: reachable.induct)
  case (initial s)
  then show ?case by (simp add: in_flight_inv_def)
next
  case (after x y)
  then show ?case by (blast intro: step_in_flight_inv)
qed

text \<open>
  C3 as stated fails when two instances of the component are mounted. On a page with two
  containers, each with a block of the same text, the call of the first instance suspends
  at its render of that text, which is then in the Rendering Set of that instance. The
  call of the second instance, whose Rendering Set is its own and empty, makes a render
  call for the same text: the trace has two render calls for the text with no settlement
  between them, and both calls are suspended.
\<close>

theorem two_instances_counterexample:
  "snd (processMermaidBlocks (page two_containers)) =
     Some \<lparr>codeBlock = 2, preElement = 1, mermaidSource = ''graph TD; A-->B'',
           diagramId = ''mermaid-diagram-1'', remaining = []\<rparr> \<and>
   ''graph TD; A-->B'' \<in> renderingRef (first_call two_containers) \<and>
   snd (processMermaidBlocks (as_instance second_instance (first_call two_containers))) =
     Some \<lparr>codeBlock = 5, preElement = 4, mermaidSource = ''graph TD; A-->B'',
           diagramId = ''mermaid-diagram-2'', remaining = []\<rparr> \<and>
   trace (fst (processMermaidBlocks (as_instance second_instance (first_call two_containers)))) =
     [RenderCall ''mermaid-diagram-1'' ''graph TD; A-->B'',
      RenderCall ''mermaid-diagram-2'' ''graph TD; A-->B'']"
  by code_simp

text \<open>
  C3, as amended: the invariant is that of one component instance. The renders in flight
  are those of the suspended calls. In every system reachable by the timer-fired calls of
  one instance, settlements with any outcome and changes of the document by the host, no
  two suspended calls await a render of the same text, and the Rendering Set of the
  instance is exactly the set of texts being rendered. A scan that reaches a render call
  has added the text, which was not in the set, and made the call as its last act; a scan
  that ends without one leaves the set as it was. When a render settles, with success or
  failure, its text is removed from the set.
\<close>

theorem one_render_in_flight_per_text:
  "(reachable (s, ps) \<longrightarrow>
      distinct (map mermaidSource ps) \<and> renderingRef s = set (map mermaidSource ps)) \<and>
   (case scan t bs of
      (t', None) \<Rightarrow> renderingRef t' = renderingRef t \<and> trace t' = trace t
    | (t', Some p) \<Rightarrow>
        mermaidSource p \<notin> renderingRef t \<and>
        renderingRef t' = insert (mermaidSource p) (renderingRef t) \<and>
        trace t' = trace t @ [RenderCall (diagramId p) (mermaidSource p)]) \<and>
   renderingRef (settle t q out) = renderingRef t - {mermaidSource q}"
proof (intro conjI impI)
  assume "reachable (s, ps)"
  from reachable_in_flight_inv [OF this]
  show "distinct (map mermaidSource ps)" and "renderingRef s = set (map mermaidSource ps)"
    by (simp_all add: in_flight_inv_def)
next
  obtain t' po where sc: "scan t bs = (t', po)" by (cases "scan t bs")
  from scan_renderingRef [OF sc] scan_trace [OF sc] sc
  show "case scan t bs of
      (t', None) \<Rightarrow> renderingRef t' = renderingRef t \<and> trace t' = trace t
    | (t', Some p) \<Rightarrow>
        mermaidSource p \<notin> renderingRef t \<and>
        renderingRef t' = insert (mermaidSource p) (renderingRef t) \<and>
        trace t' = trace t @ [RenderCall (diagramId p) (mermaidSource p)]"
    by (cases po) simp_all
next
  show "renderingRef (settle t q out) = renderingRef t - {mermaidSource q}"
    by (rule settle_renderingRef)
qed

lemma reachable_overlapping_calls: "reachable (overlapping_calls d)"
proof -
  obtain s1 p1 where c1: "processMermaidBlocks (page d) = (s1, p1)"
    by (cases "processMermaidBlocks (page d)")
  obtain s2 p2 where c2: "processMermaidBlocks s1 = (s2, p2)"
    by (cases "processMermaidBlocks s1")
  have "reachable (page d, [])" by (rule reachable.initial) (simp_all add: page_def)
  then have "reachable (s1, [] @ pending p1)" using step.invoke [OF c1] by (rule reachable.after)
  then have "reachable (s2, ([] @ pending p1) @ pending p2)"
    using step.invoke [OF c2] by (rule reachable.after)
  with c1 c2 show ?thesis by (simp add: overlapping_calls_def)
qed

lemma overlapping_two_different:
  "map mermaidSource (snd (overlapping_calls two_different_blocks)) = [''graph TD; A-->B'', ''graph LR; C-->D'']"
  by code_simp

theorem one_render_in_flight_per_text_witness:
  "reachable (overlapping_calls two_different_blocks) \<and>
   map mermaidSource (snd (overlapping_calls two_different_blocks)) =
     [''graph TD; A-->B'', ''graph LR; C-->D''] \<and>
   distinct (map mermaidSource (snd (overlapping_calls two_different_blocks))) \<and>
   renderingRef (fst (overlapping_calls two_different_blocks)) =
     {''graph TD; A-->B'', ''graph LR; C-->D''}"
  using one_render_in_flight_per_text [of "fst (overlapping_calls two_different_blocks)"
      "snd (overlapping_calls two_different_blocks)"]
    reachable_overlapping_calls [of two_different_blocks] overlapping_two_different
  by auto


section \<open>Configuring the renderer\<close>

lemma initialize_effect_first:
  "\<not> mermaidInitialized s \<Longrightarrow>
     initialize_effect c s =
       s\<lparr>mermaidInitialized := True, mermaid_config := Some (spread defaultMermaidConfig c)\<rparr>"
  by (simp add: initialize_effect_def initializeMermaid_def mermaid_initialize_def)

lemma initialize_effect_later:
  "mermaidInitialized s \<Longrightarrow>
     initialize_effect c s =
       (case c of None \<Rightarrow> s | Some c' \<Rightarrow> s\<lparr>mermaid_config := Some (defaultMermaidConfig ++ c')\<rparr>)"
  by (simp add: initialize_effect_def mermaid_initialize_def split: option.splits)

lemma last_supplied_snoc:
  "last_supplied (cs @ [c]) = (case c of None \<Rightarrow> last_supplied cs | Some c' \<Rightarrow> Some c')"
  by (cases c) (simp_all add: last_supplied_def)

lemma activations_snoc: "activations (cs @ [c]) s = initialize_effect c (activations cs s)"
  by (simp add: activations_def)

lemma activations_config:
  "\<not> mermaidInitialized s \<Longrightarrow> cs \<noteq> [] \<Longrightarrow>
     activations cs s =
       s\<lparr>mermaidInitialized := True,
          mermaid_config := Some (spread defaultMermaidConfig (last_supplied cs))\<rparr>"
proof (induction cs rule: rev_induct)
  case Nil
  then show ?case by simp
next
  case (snoc c cs)
  show ?case
  proof (cases "cs = []")
    case True
    with snoc.prems show ?thesis
      by (simp add: activations_def initialize_effect_first last_supplied_def split: option.splits)
  next
    case False
    with snoc have "activations cs s =
       s\<lparr>mermaidInitialized := True,
          mermaid_config := Some (spread defaultMermaidConfig (last_supplied cs))\<rparr>" by simp
    then show ?thesis
      by (cases c) (simp_all add: activations_snoc initialize_effect_later last_supplied_snoc spread_def)
  qed
qed

lemma spread_key:
  "spread defaultMermaidConfig c key =
     (case c of None \<Rightarrow> defaultMermaidConfig key
      | Some c' \<Rightarrow> (case c' key of None \<Rightarrow> defaultMermaidConfig key | Some v \<Rightarrow> Some v))"
  by (simp add: spread_def map_add_def split: option.splits)

lemma defaults_values:
  "defaultMermaidConfig ''startOnLoad'' = Some (Boolean False) \<and>
   defaultMermaidConfig ''theme'' = Some (String ''default'') \<and>
   defaultMermaidConfig ''securityLevel'' = Some (String ''loose'') \<and>
   defaultMermaidConfig ''fontFamily'' = Some (String ''inherit'')"
  by (simp add: defaultMermaidConfig_def)

text \<open>
  C7, as amended. From an uninitialised process, after any non-empty run of activations the
  renderer holds the defaults overridden by the configuration supplied last in the run, or
  the bare defaults when no activation supplied one; this covers the first activation, which
  already merges the caller's configuration when it has one. The caller's value wins at
  every key it defines and the default stands elsewhere. The defaults are: no start on load,
  theme \<open>default\<close>, security level \<open>loose\<close>, font family \<open>inherit\<close>. The
  configuration and the initialised flag are fields of the one process state; an activation
  changes nothing else.
\<close>

theorem activations_configure_renderer:
  "(\<not> mermaidInitialized s \<and> cs \<noteq> [] \<longrightarrow>
      activations cs s =
        s\<lparr>mermaidInitialized := True,
           mermaid_config := Some (spread defaultMermaidConfig (last_supplied cs))\<rparr>) \<and>
   spread defaultMermaidConfig c key =
     (case c of None \<Rightarrow> defaultMermaidConfig key
      | Some c' \<Rightarrow> (case c' key of None \<Rightarrow> defaultMermaidConfig key | Some v \<Rightarrow> Some v)) \<and>
   defaultMermaidConfig ''startOnLoad'' = Some (Boolean False) \<and>
   defaultMermaidConfig ''theme'' = Some (String ''default'') \<and>
   defaultMermaidConfig ''securityLevel'' = Some (String ''loose'') \<and>
   defaultMermaidConfig ''fontFamily'' = Some (String ''inherit'')"
  using activations_config [of s cs] spread_key [of c key] defaults_values by blast

text \<open>
  C7 as stated fails: a first activation that supplies a theme does not leave the renderer
  configured with the defaults.
\<close>

theorem first_activation_counterexample:
  "\<not> mermaidInitialized (page one_block) \<and>
   mermaid_config (initialize_effect (Some [''theme'' \<mapsto> String ''dark'']) (page one_block))
     \<noteq> Some defaultMermaidConfig"
proof -
  have "(defaultMermaidConfig ++ [''theme'' \<mapsto> String ''dark'']) ''theme'' \<noteq>
        defaultMermaidConfig ''theme''"
    by (simp add: defaultMermaidConfig_def)
  then have "defaultMermaidConfig ++ [''theme'' \<mapsto> String ''dark''] \<noteq> defaultMermaidConfig"
    by metis
  then show ?thesis
    by (simp add: initialize_effect_def initializeMermaid_def mermaid_initialize_def spread_def
        page_def)
qed

theorem activations_configure_renderer_witness:
  "\<not> mermaidInitialized (page one_block) \<and>
   [Some [''theme'' \<mapsto> String ''dark''], None, Some [''fontFamily'' \<mapsto> String ''serif''], None] \<noteq> [] \<and>
   mermaid_config (activations
      [Some [''theme'' \<mapsto> String ''dark''], None, Some [''fontFamily'' \<mapsto> String ''serif''], None]
      (page one_block)) = Some (defaultMermaidConfig ++ [''fontFamily'' \<mapsto> String ''serif'']) \<and>
   (defaultMermaidConfig ++ [''fontFamily'' \<mapsto> String ''serif'']) ''fontFamily'' = Some (String ''serif'') \<and>
   (defaultMermaidConfig ++ [''fontFamily'' \<mapsto> String ''serif'']) ''theme'' = Some (String ''default'')"
  using activations_configure_renderer [of "page one_block"
      "[Some [''theme'' \<mapsto> String ''dark''], None, Some [''fontFamily'' \<mapsto> String ''serif''], None]"
      "Some [''fontFamily'' \<mapsto> String ''serif'']" "''theme''"]
  by (simp add: page_def last_supplied_def spread_def defaultMermaidConfig_def)


section \<open>Identifiers\<close>

lemma call_numbers_append: "call_numbers (xs @ ys) = call_numbers xs @ call_numbers ys"
  by (simp add: call_numbers_def render_calls_append)

lemma call_numbers_call:
  "call_numbers [RenderCall (diagram_id k) t] = [k]"
  by (simp add: call_numbers_def diagram_id_def read_decimal_decimal)

lemma scan_ids_inv:
  assumes "scan s bs = (s', po)" and "ids_inv s"
  shows "ids_inv s'"
proof (cases po)
  case None
  with scan_trace [OF assms(1)] assms(2) show ?thesis
    by (auto simp: ids_inv_def)
next
  case (Some p)
  with scan_trace [OF assms(1)]
  have lt: "mermaidIdCounter s < mermaidIdCounter s'"
    and i: "diagramId p = diagram_id (mermaidIdCounter s')"
    and tr: "trace s' = trace s @ [RenderCall (diagramId p) (mermaidSource p)]" by simp_all
  from tr i have cn: "call_numbers (trace s') = call_numbers (trace s) @ [mermaidIdCounter s']"
    by (simp add: call_numbers_append call_numbers_call)
  from tr i have rc: "map fst (render_calls (trace s')) =
      map fst (render_calls (trace s)) @ [diagram_id (mermaidIdCounter s')]"
    by (simp add: render_calls_append)
  from assms(2) lt show ?thesis
    unfolding ids_inv_def cn rc by (auto simp: sorted_wrt_append)
qed

lemma settle_ids_inv: "ids_inv s \<Longrightarrow> ids_inv (settle s p out)"
  by (simp add: ids_inv_def call_numbers_def settle_render_calls settle_counter)

lemma step_ids_inv: "step x y \<Longrightarrow> ids_inv (fst x) \<Longrightarrow> ids_inv (fst y)"
proof (induction rule: step.induct)
  case (invoke s s' po ps)
  then show ?case
    by (cases "containerRef s") (auto simp: processMermaidBlocks_def intro: scan_ids_inv)
next
  case (settled i ps s out s' po)
  then show ?case
    by (auto simp: resume_def intro: scan_ids_inv settle_ids_inv)
next
  case (mutated s d' ps)
  then show ?case by (simp add: ids_inv_def)
next
  case (rebound s ps c)
  then show ?case by (simp add: ids_inv_def)
qed

lemma reachable_ids_inv: "reachable x \<Longrightarrow> ids_inv (fst x)"
proof (induction rule: reachable.induct)
  case (initial s)
  then show ?case by (simp add: ids_inv_def call_numbers_def)
next
  case (after x y)
  then show ?case by (blast intro: step_ids_inv)
qed

lemma identifier_inject:
  "(diagram_id m = diagram_id n) = (m = n)"
  by (simp add: diagram_id_def decimal_inject)

lemma ids_inv_distinct:
  assumes "ids_inv s"
  shows "distinct (map fst (render_calls (trace s)))"
proof -
  from assms have "distinct (call_numbers (trace s))"
    by (simp add: ids_inv_def strict_sorted_iff)
  moreover have "inj_on diagram_id (set (call_numbers (trace s)))"
    by (rule inj_onI) (simp add: diagram_id_def decimal_inject)
  ultimately have "distinct (map diagram_id (call_numbers (trace s)))"
    by (simp add: distinct_map)
  with assms show ?thesis by (simp add: ids_inv_def)
qed

lemma overlapping_three_blocks:
  "render_calls (trace (fst (overlapping_calls three_blocks))) =
     [(''mermaid-diagram-1'', ''graph TD; A-->B''), (''mermaid-diagram-3'', ''graph LR; C-->D'')]"
  by code_simp

text \<open>
  C10. An iteration of the loop increments the identifier counter exactly when the block
  passes the processed, parent and non-empty-text checks; a block that passes them and is
  then skipped because its text is in the Rendering Set has consumed an identifier without
  a render. Each identifier is made from the incremented counter, and different numbers give
  different identifiers. In every reachable system the identifiers given to the renderer
  carry strictly increasing numbers that the counter bounds, and are pairwise distinct, so
  a block rendered again after a failure gets an identifier not used before. They need not
  be consecutive: with two calls overlapping on a page of three blocks, the first two of
  the same text, the renderer sees the identifiers numbered 1 and 3.
\<close>

theorem identifiers_fresh_and_increasing:
  "mermaidIdCounter (fst (loop_body s b)) =
     (if candidate (document s) b then Suc (mermaidIdCounter s) else mermaidIdCounter s) \<and>
   (candidate (document s) b \<and> trim (textContent (document s) b) \<in> renderingRef s \<longrightarrow>
      loop_body s b = (s\<lparr>mermaidIdCounter := Suc (mermaidIdCounter s)\<rparr>, None)) \<and>
   fst (generateMermaidId s) = diagram_id (Suc (mermaidIdCounter s)) \<and>
   mermaidIdCounter (snd (generateMermaidId s)) = Suc (mermaidIdCounter s) \<and>
   ((diagram_id m = diagram_id n) = (m = n)) \<and>
   (reachable (t, ps) \<longrightarrow>
      sorted_wrt (<) (call_numbers (trace t)) \<and>
      (\<forall>n\<in>set (call_numbers (trace t)). n \<le> mermaidIdCounter t) \<and>
      map fst (render_calls (trace t)) =
        map diagram_id (call_numbers (trace t)) \<and>
      distinct (map fst (render_calls (trace t)))) \<and>
   render_calls (trace (fst (overlapping_calls three_blocks))) =
     [(''mermaid-diagram-1'', ''graph TD; A-->B''), (''mermaid-diagram-3'', ''graph LR; C-->D'')]"
proof -
  have "reachable (t, ps) \<longrightarrow>
      sorted_wrt (<) (call_numbers (trace t)) \<and>
      (\<forall>n\<in>set (call_numbers (trace t)). n \<le> mermaidIdCounter t) \<and>
      map fst (render_calls (trace t)) =
        map diagram_id (call_numbers (trace t)) \<and>
      distinct (map fst (render_calls (trace t)))"
  proof
    assume "reachable (t, ps)"
    from reachable_ids_inv [OF this] have i: "ids_inv t" by simp
    from ids_inv_distinct [OF i] i
    show "sorted_wrt (<) (call_numbers (trace t)) \<and>
      (\<forall>n\<in>set (call_numbers (trace t)). n \<le> mermaidIdCounter t) \<and>
      map fst (render_calls (trace t)) =
        map diagram_id (call_numbers (trace t)) \<and>
      distinct (map fst (render_calls (trace t)))"
      by (simp add: ids_inv_def)
  qed
  moreover have "fst (generateMermaidId s) = diagram_id (Suc (mermaidIdCounter s))"
    and "mermaidIdCounter (snd (generateMermaidId s)) = Suc (mermaidIdCounter s)"
    by (simp_all add: generateMermaidId_def)
  ultimately show ?thesis
    using loop_body_counter [of s b] loop_body_deferred [of s b] identifier_inject [of m n]
      overlapping_three_blocks
    by blast
qed

lemma three_blocks_second:
  "candidate (document (fst (processMermaidBlocks (page three_blocks)))) 4 \<and>
   trim (textContent (document (fst (processMermaidBlocks (page three_blocks)))) 4)
     \<in> renderingRef (fst (processMermaidBlocks (page three_blocks))) \<and>
   mermaidIdCounter (fst (processMermaidBlocks (page three_blocks))) = 1"
  by code_simp

theorem identifiers_fresh_and_increasing_witness:
  "candidate (document (fst (processMermaidBlocks (page three_blocks)))) 4 \<and>
   trim (textContent (document (fst (processMermaidBlocks (page three_blocks)))) 4)
     \<in> renderingRef (fst (processMermaidBlocks (page three_blocks))) \<and>
   loop_body (fst (processMermaidBlocks (page three_blocks))) 4 =
     ((fst (processMermaidBlocks (page three_blocks)))\<lparr>mermaidIdCounter := 2\<rparr>, None) \<and>
   reachable (overlapping_calls three_blocks) \<and>
   call_numbers (trace (fst (overlapping_calls three_blocks))) = [1, 3] \<and>
   sorted_wrt (<) (call_numbers (trace (fst (overlapping_calls three_blocks)))) \<and>
   distinct (map fst (render_calls (trace (fst (overlapping_calls three_blocks)))))"
proof -
  have cn: "call_numbers (trace (fst (overlapping_calls three_blocks))) = [1, 3]"
    by code_simp
  have two: "Suc 1 = 2" by simp
  show ?thesis
    using identifiers_fresh_and_increasing [of "fst (processMermaidBlocks (page three_blocks))" 4
        0 0 "fst (overlapping_calls three_blocks)" "snd (overlapping_calls three_blocks)"]
      three_blocks_second reachable_overlapping_calls [of three_blocks] cn
    by (simp only: two prod.collapse) simp
qed


section \<open>The document store\<close>

lemma length_modify [simp]: "length (modify d n f) = length d"
  by (simp add: modify_def)

lemma nth_modify: "modify d n f ! m = (if m = n \<and> n < length d then f (d ! n) else d ! m)"
  by (simp add: modify_def)

lemma parentElement_Some:
  "parentElement d n = Some p \<longleftrightarrow>
     p < length d \<and> n \<in> set (children (d ! p)) \<and> (\<forall>q<p. n \<notin> set (children (d ! q)))"
  by (auto simp: parentElement_def find_Some_iff)

lemma parentElement_None:
  "parentElement d n = None \<longleftrightarrow> (\<forall>p<length d. n \<notin> set (children (d ! p)))"
  by (auto simp: parentElement_def find_None_iff)

text \<open>The parent of a node depends only on which child lists the node is in.\<close>

lemma parentElement_cong:
  assumes "length d \<le> length d'"
    and "\<And>p. p < length d \<Longrightarrow> n \<in> set (children (d' ! p)) \<longleftrightarrow> n \<in> set (children (d ! p))"
    and "\<And>p. length d \<le> p \<Longrightarrow> p < length d' \<Longrightarrow> n \<notin> set (children (d' ! p))"
  shows "parentElement d' n = parentElement d n"
proof (cases "parentElement d n")
  case None
  then have "\<forall>p<length d'. n \<notin> set (children (d' ! p))"
    using assms by (metis parentElement_None not_le_imp_less)
  then have "parentElement d' n = None" by (simp add: parentElement_None)
  with None show ?thesis by simp
next
  case (Some p)
  then have "p < length d" "n \<in> set (children (d ! p))" "\<forall>q<p. n \<notin> set (children (d ! q))"
    by (simp_all add: parentElement_Some)
  with assms have "parentElement d' n = Some p"
    by (auto simp: parentElement_Some)
  with Some show ?thesis by simp
qed

lemma set_insert_after:
  "set (insert_after x y zs) = (if x \<in> set zs then insert y (set zs) else set zs)"
  by (induction zs) auto

lemma insert_after_split:
  "x \<in> set zs \<Longrightarrow> \<exists>us vs. zs = us @ x # vs \<and> x \<notin> set us \<and> insert_after x y zs = us @ x # y # vs"
proof (induction zs)
  case Nil
  then show ?case by simp
next
  case (Cons z zs)
  show ?case
  proof (cases "z = x")
    case True
    then have "z # zs = [] @ x # zs \<and> x \<notin> set [] \<and> insert_after x y (z # zs) = [] @ x # y # zs"
      by simp
    then show ?thesis by blast
  next
    case False
    with Cons obtain us vs where "zs = us @ x # vs" "x \<notin> set us" "insert_after x y zs = us @ x # y # vs"
      by auto
    with False have "z # zs = (z # us) @ x # vs \<and> x \<notin> set (z # us) \<and>
        insert_after x y (z # zs) = (z # us) @ x # y # vs" by simp
    then show ?thesis by blast
  qed
qed

lemma filter_insert_after:
  "\<not> P y \<Longrightarrow> filter P (insert_after x y zs) = filter P zs"
  by (induction zs) auto

text \<open>The patches, field by field.\<close>

lemma on_success_explicit:
  "on_success d p h =
     classList_add
       (insertAdjacentElement_afterend (d @ rendered (length d) h) (preElement p) (length d))
       (preElement p) ''mermaid-hidden''"
proof -
  have "(+) (Suc (length d)) = (\<lambda>k. Suc (length d + k))"
    by (rule ext) simp
  then show ?thesis
    by (simp add: on_success_def createElement_def set_className_def set_innerHTML_def modify_def
        rendered_def diagram_element_def nth_append list_update_append)
qed

lemma on_failure_explicit:
  "on_failure d p e =
     removeAttribute
       (insertAdjacentElement_afterend
          (d @ [\<lparr>tag = ''DIV'', classes = [''mermaid-error''], attrs = [], content = error_text e,
                 markup = [], children = []\<rparr>])
          (preElement p) (length d))
       (codeBlock p) ''data-mermaid-processed''"
  by (simp add: on_failure_def createElement_def set_className_def set_textContent_def modify_def)

lemma length_rendered: "length (rendered base h) = Suc (length (nodes h))"
  by (simp add: rendered_def)

lemma rendered_children:
  "e \<in> set (rendered base h) \<Longrightarrow> c \<in> set (children e) \<Longrightarrow> base < c"
  by (auto simp: rendered_def diagram_element_def relocate_def)

lemma rendered_matches:
  assumes "plain h" and "e \<in> set (rendered base h)"
  shows "\<not> (tag e = ''CODE'' \<and> ''language-mermaid'' \<in> set (classes e))"
  using assms
  by (auto simp: rendered_def diagram_element_def relocate_def plain_def list_all_iff)

text \<open>
  The document after a successful render, element by element: \<open>ins\<close> is what the
  insertion does to the parent of the \<open>PRE\<close> element, if it has one.
\<close>

lemma on_success_nth:
  assumes "m < length d + length (rendered (length d) h)"
    and "e = (if m < length d then d ! m else rendered (length d) h ! (m - length d))"
  shows "tag (on_success d p h ! m) = tag e \<and>
     content (on_success d p h ! m) = content e \<and>
     markup (on_success d p h ! m) = markup e \<and>
     attrs (on_success d p h ! m) = attrs e \<and>
     classes (on_success d p h ! m) =
       (if m = preElement p \<and> ''mermaid-hidden'' \<notin> set (classes e)
        then classes e @ [''mermaid-hidden''] else classes e) \<and>
     (children (on_success d p h ! m) = children e \<or>
      children (on_success d p h ! m) = insert_after (preElement p) (length d) (children e))"
proof -
  let ?d3 = "d @ rendered (length d) h"
  define e4 where "e4 = insertAdjacentElement_afterend ?d3 (preElement p) (length d) ! m"
  have l4: "length (insertAdjacentElement_afterend ?d3 (preElement p) (length d)) = length ?d3"
    by (simp add: insertAdjacentElement_afterend_def split: option.splits)
  have e0: "?d3 ! m = e"
    using assms(2) by (simp add: nth_append)
  have "e4 = ?d3 ! m \<or>
      e4 = (?d3 ! m)\<lparr>children := insert_after (preElement p) (length d) (children (?d3 ! m))\<rparr>"
    unfolding e4_def
    by (auto simp: insertAdjacentElement_afterend_def nth_modify split: option.splits)
  with e0 have e1: "e4 = e \<or>
      e4 = e\<lparr>children := insert_after (preElement p) (length d) (children e)\<rparr>"
    by simp
  have r: "on_success d p h ! m =
      (if m = preElement p \<and> ''mermaid-hidden'' \<notin> set (classes e4)
       then e4\<lparr>classes := classes e4 @ [''mermaid-hidden'']\<rparr> else e4)"
    unfolding e4_def using assms(1) l4
    by (auto simp: on_success_explicit classList_add_def nth_modify)
  from e1 show ?thesis
  proof
    assume "e4 = e"
    then show ?thesis unfolding r by simp
  next
    assume "e4 = e\<lparr>children := insert_after (preElement p) (length d) (children e)\<rparr>"
    then show ?thesis unfolding r by simp
  qed
qed

lemma parentElement_append_leaf:
  "children e = [] \<Longrightarrow> parentElement (d @ [e]) n = parentElement d n"
  by (rule parentElement_cong) (auto simp: nth_append less_Suc_eq)

lemma insertAdjacent_new:
  assumes "children e = []"
  shows "insertAdjacentElement_afterend (d @ [e]) x (length d) =
     (case parentElement d x of None \<Rightarrow> d @ [e]
      | Some p \<Rightarrow> d[p := (d ! p)\<lparr>children := insert_after x (length d) (children (d ! p))\<rparr>] @ [e])"
proof (cases "parentElement d x")
  case None
  with assms show ?thesis
    by (simp add: insertAdjacentElement_afterend_def parentElement_append_leaf)
next
  case (Some p)
  then have "p < length d" by (simp add: parentElement_Some)
  with Some assms show ?thesis
    by (simp add: insertAdjacentElement_afterend_def parentElement_append_leaf modify_def
        nth_append list_update_append)
qed

text \<open>
  The elements parsed from the markup are children of each other and of the new container
  only, so they are the parent of no element that was in the document before.
\<close>

lemma parentElement_append_rendered:
  assumes "n \<le> length d"
  shows "parentElement (d @ rendered (length d) h) n = parentElement d n"
proof (rule parentElement_cong)
  show "length d \<le> length (d @ rendered (length d) h)" by simp
next
  fix q assume "q < length d"
  then show "n \<in> set (children ((d @ rendered (length d) h) ! q)) \<longleftrightarrow> n \<in> set (children (d ! q))"
    by (simp add: nth_append)
next
  fix q assume q: "length d \<le> q" "q < length (d @ rendered (length d) h)"
  then have "(d @ rendered (length d) h) ! q \<in> set (rendered (length d) h)"
    by (simp add: nth_append)
  with assms show "n \<notin> set (children ((d @ rendered (length d) h) ! q))"
    using rendered_children [of _ "length d" h n] by fastforce
qed

lemma insertAdjacent_rendered:
  assumes "x \<le> length d"
  shows "insertAdjacentElement_afterend (d @ rendered (length d) h) x (length d) =
     (case parentElement d x of None \<Rightarrow> d @ rendered (length d) h
      | Some p \<Rightarrow> d[p := (d ! p)\<lparr>children := insert_after x (length d) (children (d ! p))\<rparr>] @
          rendered (length d) h)"
proof (cases "parentElement d x")
  case None
  with assms show ?thesis
    by (simp add: insertAdjacentElement_afterend_def parentElement_append_rendered)
next
  case (Some p)
  then have "p < length d" by (simp add: parentElement_Some)
  with Some assms show ?thesis
    by (simp add: insertAdjacentElement_afterend_def parentElement_append_rendered modify_def
        nth_append list_update_append)
qed


section \<open>The patches after a render settles\<close>

lemma element_after_insert_after:
  "x \<in> set zs \<Longrightarrow> element_after x (insert_after x y zs) = Some y"
  by (induction zs) auto

lemma length_insert_after:
  "x \<in> set zs \<Longrightarrow> length (insert_after x y zs) = Suc (length zs)"
  by (induction zs) auto

lemma on_success_parent:
  assumes "parentElement d (preElement p) = Some par" and "preElement p < length d"
  shows "on_success d p h =
     modify (d[par := (d ! par)\<lparr>children := insert_after (preElement p) (length d) (children (d ! par))\<rparr>] @
       rendered (length d) h)
       (preElement p)
       (\<lambda>e. if ''mermaid-hidden'' \<in> set (classes e) then e else e\<lparr>classes := classes e @ [''mermaid-hidden'']\<rparr>)"
  using assms by (simp add: on_success_explicit insertAdjacent_rendered classList_add_def)

lemma on_failure_parent:
  assumes "parentElement d (preElement p) = Some par"
  shows "on_failure d p e =
     modify (d[par := (d ! par)\<lparr>children := insert_after (preElement p) (length d) (children (d ! par))\<rparr>] @
       [\<lparr>tag = ''DIV'', classes = [''mermaid-error''], attrs = [], content = error_text e,
         markup = [], children = []\<rparr>])
       (codeBlock p)
       (\<lambda>e. e\<lparr>attrs := AList.delete ''data-mermaid-processed'' (attrs e)\<rparr>)"
  using assms by (simp add: on_failure_explicit insertAdjacent_new removeAttribute_def)

lemma settle_document:
  "document (settle s p out) =
     (case out of Resolved h \<Rightarrow> on_success (document s) p h
      | Rejected e \<Rightarrow> on_failure (document s) p e)"
  by (cases out) (simp_all add: settle_def Let_def)

lemma on_success_length: "length (on_success d p h) = Suc (length d + length (nodes h))"
  by (simp add: on_success_explicit classList_add_def insertAdjacentElement_afterend_def
      length_rendered split: option.splits)

lemma on_failure_length: "length (on_failure d p e) = Suc (length d)"
  by (simp add: on_failure_explicit insertAdjacent_new removeAttribute_def split: option.splits)

text \<open>
  What a successful render leaves of an element that was in the document: its child list
  gains at most the new container, its classes at most \<open>mermaid-hidden\<close>.
\<close>

lemma on_success_children_weak:
  assumes "m < length d"
  shows "children (on_success d p h ! m) = children (d ! m) \<or>
     children (on_success d p h ! m) = insert_after (preElement p) (length d) (children (d ! m))"
  using on_success_nth [of m d h "d ! m" p] assms by simp

lemma on_success_children:
  assumes "m < length d" and "preElement p < length d"
  shows "children (on_success d p h ! m) =
     (if parentElement d (preElement p) = Some m
      then insert_after (preElement p) (length d) (children (d ! m)) else children (d ! m))"
proof (cases "parentElement d (preElement p)")
  case None
  with assms show ?thesis
    by (auto simp: on_success_explicit insertAdjacent_rendered classList_add_def nth_modify nth_append)
next
  case (Some par)
  then have "par < length d" by (simp add: parentElement_Some)
  with Some assms show ?thesis
    by (auto simp: on_success_explicit insertAdjacent_rendered classList_add_def nth_modify nth_append
        nth_list_update)
qed

lemma on_failure_children:
  assumes "m < length d"
  shows "children (on_failure d p e ! m) =
     (if parentElement d (preElement p) = Some m
      then insert_after (preElement p) (length d) (children (d ! m)) else children (d ! m))"
proof (cases "parentElement d (preElement p)")
  case None
  with assms show ?thesis
    by (auto simp: on_failure_explicit insertAdjacent_new removeAttribute_def nth_modify nth_append)
next
  case (Some par)
  then have "par < length d" by (simp add: parentElement_Some)
  with Some assms show ?thesis
    by (auto simp: on_failure_explicit insertAdjacent_new removeAttribute_def nth_modify nth_append nth_list_update)
qed

lemma on_success_fields:
  assumes "m < length d"
  shows "tag (on_success d p h ! m) = tag (d ! m) \<and>
     content (on_success d p h ! m) = content (d ! m) \<and>
     markup (on_success d p h ! m) = markup (d ! m) \<and>
     attrs (on_success d p h ! m) = attrs (d ! m) \<and>
     classes (on_success d p h ! m) =
       (if m = preElement p \<and> ''mermaid-hidden'' \<notin> set (classes (d ! m))
        then classes (d ! m) @ [''mermaid-hidden''] else classes (d ! m))"
  using on_success_nth [of m d h "d ! m" p] assms by simp

lemma on_failure_fields:
  assumes "m < length d"
  shows "tag (on_failure d p e ! m) = tag (d ! m) \<and>
     content (on_failure d p e ! m) = content (d ! m) \<and>
     markup (on_failure d p e ! m) = markup (d ! m) \<and>
     classes (on_failure d p e ! m) = classes (d ! m) \<and>
     attrs (on_failure d p e ! m) =
       (if m = codeBlock p then AList.delete ''data-mermaid-processed'' (attrs (d ! m))
        else attrs (d ! m))"
proof (cases "parentElement d (preElement p)")
  case None
  with assms show ?thesis
    by (auto simp: on_failure_explicit insertAdjacent_new removeAttribute_def nth_modify nth_append)
next
  case (Some par)
  then have "par < length d" by (simp add: parentElement_Some)
  with Some assms show ?thesis
    by (auto simp: on_failure_explicit insertAdjacent_new removeAttribute_def nth_modify nth_append nth_list_update)
qed

text \<open>
  The elements a successful render adds: the container at the first free address, then the
  elements parsed from the markup, their child lists moved to where they are stored.
\<close>

lemma on_success_new:
  assumes "preElement p < length d" and "k < length (rendered (length d) h)"
  shows "on_success d p h ! (length d + k) = rendered (length d) h ! k"
proof (cases "parentElement d (preElement p)")
  case None
  with assms show ?thesis
    by (auto simp: on_success_explicit insertAdjacent_rendered classList_add_def nth_modify nth_append)
next
  case (Some par)
  then have "par < length d" by (simp add: parentElement_Some)
  with Some assms show ?thesis
    by (auto simp: on_success_explicit insertAdjacent_rendered classList_add_def nth_modify nth_append
        nth_list_update)
qed

lemma on_success_container:
  assumes "preElement p < length d"
  shows "on_success d p h ! length d = diagram_element (length d) h"
  using on_success_new [OF assms, of 0 h] by (simp add: rendered_def)

lemma on_success_parsed:
  assumes "preElement p < length d" and "k < length (nodes h)"
  shows "on_success d p h ! (Suc (length d) + k) = relocate (Suc (length d)) (nodes h ! k)"
  using on_success_new [OF assms(1), of "Suc k" h] assms(2) by (simp add: rendered_def)

lemma on_failure_new:
  "on_failure d p e ! length d =
     \<lparr>tag = ''DIV'', classes = [''mermaid-error''], attrs = [], content = error_text e,
      markup = [], children = []\<rparr>"
proof (cases "parentElement d (preElement p)")
  case None
  then show ?thesis
    by (auto simp: on_failure_explicit insertAdjacent_new removeAttribute_def nth_modify nth_append)
next
  case (Some par)
  then have "par < length d" by (simp add: parentElement_Some)
  with Some show ?thesis
    by (auto simp: on_failure_explicit insertAdjacent_new removeAttribute_def nth_modify nth_append nth_list_update)
qed

text \<open>
  Whatever the state of the document, the added elements have no element of the old
  document as a child, and the selector matches one of them only if it matches an element
  of the markup.
\<close>

lemma on_success_added:
  assumes "length d \<le> m" and "m < length (on_success d p h)"
  shows "(\<forall>c\<in>set (children (on_success d p h ! m)). length d \<le> c) \<and>
     (plain h \<longrightarrow>
        \<not> (tag (on_success d p h ! m) = ''CODE'' \<and>
           ''language-mermaid'' \<in> set (classes (on_success d p h ! m))))"
proof -
  define e where "e = rendered (length d) h ! (m - length d)"
  from assms have m: "m < length d + length (rendered (length d) h)"
    by (simp add: on_success_length length_rendered)
  with assms have mem: "e \<in> set (rendered (length d) h)" by (simp add: e_def)
  from assms have "e = (if m < length d then d ! m else rendered (length d) h ! (m - length d))"
    by (simp add: e_def)
  note f = on_success_nth [OF m this, of p]
  have c0: "\<forall>c\<in>set (children e). length d \<le> c"
    using rendered_children [OF mem] by (simp add: less_imp_le)
  from f have "children (on_success d p h ! m) = children e \<or>
      children (on_success d p h ! m) = insert_after (preElement p) (length d) (children e)"
    by blast
  with c0 have c1: "\<forall>c\<in>set (children (on_success d p h ! m)). length d \<le> c"
    by (auto simp: set_insert_after split: if_splits)
  from f have t: "tag (on_success d p h ! m) = tag e"
    and c: "set (classes (on_success d p h ! m)) \<subseteq> insert ''mermaid-hidden'' (set (classes e))"
    by (auto split: if_splits)
  have "plain h \<Longrightarrow> \<not> (tag e = ''CODE'' \<and> ''language-mermaid'' \<in> set (classes e))"
    using rendered_matches [OF _ mem] by simp
  with t c have "plain h \<longrightarrow>
        \<not> (tag (on_success d p h ! m) = ''CODE'' \<and>
           ''language-mermaid'' \<in> set (classes (on_success d p h ! m)))"
    by auto
  with c1 show ?thesis by simp
qed

lemma on_success_parentElement:
  assumes "n < length d"
  shows "parentElement (on_success d p h) n = parentElement d n"
proof (rule parentElement_cong)
  show "length d \<le> length (on_success d p h)" by (simp add: on_success_length)
next
  fix q assume "q < length d"
  with assms on_success_children_weak [of q d p h]
  show "n \<in> set (children (on_success d p h ! q)) \<longleftrightarrow> n \<in> set (children (d ! q))"
    by (auto simp: set_insert_after split: if_splits)
next
  fix q assume "length d \<le> q" "q < length (on_success d p h)"
  from on_success_added [OF this] assms
  show "n \<notin> set (children (on_success d p h ! q))" by auto
qed

lemma on_failure_parentElement:
  assumes "n \<noteq> length d"
  shows "parentElement (on_failure d p e) n = parentElement d n"
proof (rule parentElement_cong)
  show "length d \<le> length (on_failure d p e)" by (simp add: on_failure_length)
next
  fix q assume "q < length d"
  with assms show "n \<in> set (children (on_failure d p e ! q)) \<longleftrightarrow> n \<in> set (children (d ! q))"
    by (simp add: on_failure_children set_insert_after)
next
  fix q assume "length d \<le> q" "q < length (on_failure d p e)"
  then have "q = length d" by (simp add: on_failure_length)
  then show "n \<notin> set (children (on_failure d p e ! q))"
    by (simp add: on_failure_new)
qed

lemma nextElementSibling_inserted:
  assumes "parentElement d x = Some par" and "parentElement d' x = Some par"
    and "children (d' ! par) = insert_after x y (children (d ! par))"
  shows "nextElementSibling d' x = Some y"
proof -
  from assms(1) have "x \<in> set (children (d ! par))" by (simp add: parentElement_Some)
  with assms show ?thesis
    by (simp add: nextElementSibling_def element_after_insert_after)
qed

lemma hasAttribute_on_failure:
  assumes "m < length d"
  shows "hasAttribute (on_failure d p e) m a =
     (hasAttribute d m a \<and> \<not> (m = codeBlock p \<and> a = ''data-mermaid-processed''))"
  using assms on_failure_fields [OF assms, of p e]
  by (auto simp: hasAttribute_def on_failure_length delete_conv')

lemma candidate_length: "candidate d b \<Longrightarrow> b < length d"
  by (auto simp: candidate_def textContent_def trim_def split: if_splits)

lemma candidate_on_failure:
  assumes "candidate d b"
  shows "candidate (on_failure d p e) b"
proof -
  from assms have b: "b < length d" by (rule candidate_length)
  from assms obtain q where q: "parentElement d b = Some q" and t: "tagName d q = ''PRE''"
    by (auto simp: candidate_def split: option.splits)
  from q have ql: "q < length d" by (simp add: parentElement_Some)
  from b have "parentElement (on_failure d p e) b = Some q"
    using q by (simp add: on_failure_parentElement)
  moreover from ql t have "tagName (on_failure d p e) q = ''PRE''"
    using on_failure_fields [of q d p e] by (simp add: tagName_def on_failure_length)
  moreover from b have "textContent (on_failure d p e) b = textContent d b"
    using on_failure_fields [of b d p e] by (simp add: textContent_def on_failure_length)
  moreover from assms b have "\<not> hasAttribute (on_failure d p e) b ''data-mermaid-processed''"
    by (simp add: hasAttribute_on_failure candidate_def)
  ultimately show ?thesis using assms by (simp add: candidate_def)
qed

lemma awaits_on_failure:
  assumes "awaits d p"
  shows "candidate (on_failure d p e) (codeBlock p)"
proof -
  from assms have b: "codeBlock p < length d" and q: "preElement p < length d"
    and pe: "parentElement d (codeBlock p) = Some (preElement p)"
    and t: "tagName d (preElement p) = ''PRE''"
    and x: "trim (textContent d (codeBlock p)) \<noteq> []"
    by (auto simp: awaits_def)
  from b pe have "parentElement (on_failure d p e) (codeBlock p) = Some (preElement p)"
    by (simp add: on_failure_parentElement)
  moreover from q t have "tagName (on_failure d p e) (preElement p) = ''PRE''"
    using on_failure_fields [of "preElement p" d p e] by (simp add: tagName_def on_failure_length)
  moreover from b have "textContent (on_failure d p e) (codeBlock p) = textContent d (codeBlock p)"
    using on_failure_fields [of "codeBlock p" d p e] by (simp add: textContent_def on_failure_length)
  moreover from b have "\<not> hasAttribute (on_failure d p e) (codeBlock p) ''data-mermaid-processed''"
    by (simp add: hasAttribute_on_failure)
  ultimately show ?thesis using x by (simp add: candidate_def)
qed

lemma loop_body_render:
  assumes "candidate (document s) b" and "trim (textContent (document s) b) \<notin> renderingRef s"
  shows "\<exists>pre. loop_body s b =
     (s\<lparr>mermaidIdCounter := Suc (mermaidIdCounter s),
        renderingRef := insert (trim (textContent (document s) b)) (renderingRef s),
        document := setAttribute (document s) b ''data-mermaid-processed'' ''true'',
        trace := trace s @ [RenderCall (diagram_id (Suc (mermaidIdCounter s)))
                   (trim (textContent (document s) b))]\<rparr>,
      Some (pre, trim (textContent (document s) b), diagram_id (Suc (mermaidIdCounter s)))) \<and>
     parentElement (document s) b = Some pre"
  using assms
  by (auto simp: loop_body_def candidate_def generateMermaidId_def Let_def split: option.splits)

lemma settle_trace:
  "trace (settle s p out) =
     trace s @ RenderSettled (diagramId p) out #
       (case out of Resolved svg \<Rightarrow> [] | Rejected e \<Rightarrow> [ConsoleError e])"
  by (cases out) (simp_all add: settle_def Let_def)

lemma textContent_on_failure:
  "b < length d \<Longrightarrow> textContent (on_failure d p e) b = textContent d b"
  using on_failure_fields [of b d p e] by (simp add: textContent_def on_failure_length)

subsection \<open>Marking a block\<close>

lemma length_setAttribute [simp]: "length (setAttribute d b a v) = length d"
  by (simp add: setAttribute_def)

lemma setAttribute_fields:
  "tag (setAttribute d b a v ! m) = tag (d ! m) \<and>
   content (setAttribute d b a v ! m) = content (d ! m) \<and>
   markup (setAttribute d b a v ! m) = markup (d ! m) \<and>
   classes (setAttribute d b a v ! m) = classes (d ! m) \<and>
   children (setAttribute d b a v ! m) = children (d ! m)"
  by (simp add: setAttribute_def nth_modify)

lemma parentElement_setAttribute [simp]:
  "parentElement (setAttribute d b a v) n = parentElement d n"
  by (rule parentElement_cong) (simp_all add: setAttribute_fields)

lemma tagName_setAttribute [simp]: "tagName (setAttribute d b a v) n = tagName d n"
  by (simp add: tagName_def setAttribute_fields)

lemma textContent_setAttribute [simp]: "textContent (setAttribute d b a v) n = textContent d n"
  by (simp add: textContent_def setAttribute_fields)

lemma classList_setAttribute [simp]: "classList (setAttribute d b a v) n = classList d n"
  by (simp add: classList_def setAttribute_fields)

lemma childNodes_setAttribute [simp]: "childNodes (setAttribute d b a v) n = childNodes d n"
  by (simp add: childNodes_def setAttribute_fields)

lemma hasAttribute_setAttribute:
  "hasAttribute (setAttribute d b a v) m a' =
     (hasAttribute d m a' \<or> (m = b \<and> a' = a \<and> b < length d))"
  by (auto simp: hasAttribute_def setAttribute_def nth_modify update_conv')

lemma candidate_setAttribute:
  "b' \<noteq> b \<Longrightarrow>
     candidate (setAttribute d b ''data-mermaid-processed'' v) b' = candidate d b'"
  by (auto simp: candidate_def hasAttribute_setAttribute split: option.splits)

lemma loop_body_awaits:
  assumes "loop_body s b = (s', Some (pre, src, i))"
  shows "awaits (document s')
      \<lparr>codeBlock = b, preElement = pre, mermaidSource = src, diagramId = i, remaining = rest\<rparr> \<and>
    hasAttribute (document s') b ''data-mermaid-processed''"
proof -
  from loop_body_Some [OF assms]
  have src: "src \<noteq> []" "src = trim (textContent (document s) b)"
    and pe: "parentElement (document s) b = Some pre" and t: "tagName (document s) pre = ''PRE''"
    and s': "s' = s\<lparr>mermaidIdCounter := Suc (mermaidIdCounter s),
         renderingRef := insert src (renderingRef s),
         document := setAttribute (document s) b ''data-mermaid-processed'' ''true'',
         trace := trace s @ [RenderCall i src]\<rparr>"
    by blast+
  from s' have d: "document s' = setAttribute (document s) b ''data-mermaid-processed'' ''true''"
    by simp
  from src have b: "b < length (document s)"
    by (auto simp: textContent_def trim_def split: if_splits)
  from pe have "pre < length (document s)" by (simp add: parentElement_Some)
  with src pe t b show ?thesis
    unfolding d by (simp add: awaits_def hasAttribute_setAttribute)
qed



section \<open>What the suspended calls hold\<close>

text \<open>Nothing the loop or a settlement does removes a child or a class.\<close>

lemma settle_keeps:
  assumes "m < length (document s)"
  shows "set (childNodes (document s) m) \<subseteq> set (childNodes (document (settle s q out)) m) \<and>
         set (classList (document s) m) \<subseteq> set (classList (document (settle s q out)) m)"
proof (cases out)
  case (Resolved h)
  with assms on_success_fields [OF assms, of q h] on_success_children_weak [OF assms, of q h]
  show ?thesis
    by (auto simp: settle_document childNodes_def classList_def on_success_length set_insert_after
        split: if_splits)
next
  case (Rejected e)
  with assms on_failure_fields [OF assms, of q e] on_failure_children [OF assms, of q e]
  show ?thesis
    by (auto simp: settle_document childNodes_def classList_def on_failure_length set_insert_after)
qed

lemma scan_keeps:
  assumes "scan s bs = (s', po)"
  shows "length (document s') = length (document s) \<and>
         childNodes (document s') m = childNodes (document s) m \<and>
         classList (document s') m = classList (document s) m"
proof (cases po)
  case None
  with assms scan_None [of s bs s'] have "s' = s\<lparr>mermaidIdCounter := mermaidIdCounter s'\<rparr>" by simp
  then have "document s' = document (s\<lparr>mermaidIdCounter := mermaidIdCounter s'\<rparr>)" by simp
  then show ?thesis by simp
next
  case (Some p)
  with assms scan_Some [of s bs s' p] obtain k where
    "loop_body (s\<lparr>mermaidIdCounter := k\<rparr>) (codeBlock p) =
         (s', Some (preElement p, mermaidSource p, diagramId p))" by auto
  from loop_body_Some [OF this]
  have "s' = s\<lparr>mermaidIdCounter := k\<rparr>\<lparr>mermaidIdCounter := Suc (mermaidIdCounter (s\<lparr>mermaidIdCounter := k\<rparr>)),
                renderingRef := insert (mermaidSource p) (renderingRef (s\<lparr>mermaidIdCounter := k\<rparr>)),
                document := setAttribute (document (s\<lparr>mermaidIdCounter := k\<rparr>)) (codeBlock p) ''data-mermaid-processed'' ''true'',
                trace := trace (s\<lparr>mermaidIdCounter := k\<rparr>) @ [RenderCall (diagramId p) (mermaidSource p)]\<rparr>"
    by blast
  then have "document s' = setAttribute (document s) (codeBlock p) ''data-mermaid-processed'' ''true''"
    by simp
  then show ?thesis by simp
qed

lemma resume_keeps:
  assumes "m < length (document s)"
  shows "set (childNodes (document s) m) \<subseteq> set (childNodes (document (fst (resume s q out))) m) \<and>
         set (classList (document s) m) \<subseteq> set (classList (document (fst (resume s q out))) m)"
proof -
  obtain s' po where r: "scan (settle s q out) (remaining q) = (s', po)"
    by (cases "scan (settle s q out) (remaining q)")
  from scan_keeps [OF r, of m] settle_keeps [OF assms, of q out] r show ?thesis
    by (simp add: resume_def)
qed

lemma settle_length: "length (document s) \<le> length (document (settle s p out))"
  by (cases out) (simp_all add: settle_document on_success_length on_failure_length)

lemma querySelectorAll_allocated: "b \<in> set (querySelectorAll d c) \<Longrightarrow> b < length d"
  by (auto simp: querySelectorAll_def matches_code_language_mermaid_def tagName_def split: if_splits)

text \<open>
  Elements are never deallocated, so the elements a suspended call refers to stay in the
  store whatever happens while it is suspended.
\<close>

lemma scan_allocated:
  assumes "scan s bs = (s', Some p)" and "\<forall>b\<in>set bs. b < length (document s)"
  shows "codeBlock p < length (document s') \<and> preElement p < length (document s') \<and>
    (\<forall>b\<in>set (remaining p). b < length (document s'))"
proof -
  from scan_Some [OF assms(1)] obtain k xs where
    bs: "bs = xs @ codeBlock p # remaining p"
    and lb: "loop_body (s\<lparr>mermaidIdCounter := k\<rparr>) (codeBlock p) =
         (s', Some (preElement p, mermaidSource p, diagramId p))" by blast
  from loop_body_Some [OF lb]
  have "parentElement (document (s\<lparr>mermaidIdCounter := k\<rparr>)) (codeBlock p) = Some (preElement p)"
    by blast
  then have pre: "preElement p < length (document s)" by (simp add: parentElement_Some)
  from scan_keeps [OF assms(1), of 0] have len: "length (document s') = length (document s)"
    by simp
  from bs assms(2) pre show ?thesis unfolding len by auto
qed

lemma step_allocated: "step x y \<Longrightarrow> allocated x \<Longrightarrow> allocated y"
proof (induction rule: step.induct)
  case (invoke s s' po ps)
  show ?case
  proof (cases "containerRef s")
    case None
    with invoke show ?thesis by (simp add: processMermaidBlocks_def pending_def)
  next
    case (Some c)
    with invoke have sc: "scan s (querySelectorAll (document s) c) = (s', po)"
      by (simp add: processMermaidBlocks_def)
    from scan_keeps [OF sc, of 0] have len: "length (document s') = length (document s)" by simp
    have "\<forall>b\<in>set (querySelectorAll (document s) c). b < length (document s)"
      by (simp add: querySelectorAll_allocated)
    with sc have "po = Some p \<Longrightarrow> codeBlock p < length (document s') \<and>
        preElement p < length (document s') \<and>
        (\<forall>b\<in>set (remaining p). b < length (document s'))" for p
      using scan_allocated [of s _ s' p] by simp
    with invoke.prems len show ?thesis
      by (auto simp: allocated_def pending_def split: option.splits)
  qed
next
  case (settled i ps s out s' po)
  let ?s1 = "settle s (ps ! i) out"
  from settled have sc: "scan ?s1 (remaining (ps ! i)) = (s', po)" by (simp add: resume_def)
  from scan_keeps [OF sc, of 0] have len: "length (document s') = length (document ?s1)" by simp
  have le: "length (document s) \<le> length (document s')"
    unfolding len by (rule settle_length)
  from settled have "ps ! i \<in> set ps" by simp
  with settled.prems have "\<forall>b\<in>set (remaining (ps ! i)). b < length (document s)"
    by (simp add: allocated_def)
  with settle_length [of s "ps ! i" out]
  have "\<forall>b\<in>set (remaining (ps ! i)). b < length (document ?s1)" by fastforce
  with sc have new: "po = Some p \<Longrightarrow> codeBlock p < length (document s') \<and>
        preElement p < length (document s') \<and>
        (\<forall>b\<in>set (remaining p). b < length (document s'))" for p
    using scan_allocated [of ?s1 _ s' p] by simp
  have old: "codeBlock p < length (document s') \<and> preElement p < length (document s') \<and>
        (\<forall>b\<in>set (remaining p). b < length (document s'))" if "p \<in> set ps" for p
    using that settled.prems le by (fastforce simp: allocated_def)
  have "set (take i ps @ pending po @ drop (Suc i) ps) \<subseteq> set ps \<union> set (pending po)"
    using set_take_subset [of i ps] set_drop_subset [of "Suc i" ps] by auto
  with old new show ?case
    by (auto simp: allocated_def pending_def split: option.splits)
next
  case (mutated s d' ps)
  then show ?case by (fastforce simp: allocated_def)
next
  case (rebound s ps c)
  then show ?case by (simp add: allocated_def)
qed

lemma reachable_allocated: "reachable x \<Longrightarrow> allocated x"
proof (induction rule: reachable.induct)
  case (initial s)
  then show ?case by (simp add: allocated_def)
next
  case (after x y)
  then show ?case by (blast intro: step_allocated)
qed


section \<open>One call on its own\<close>

lemma loop_body_skip: "\<not> candidate (document s) b \<Longrightarrow> loop_body s b = (s, None)"
  by (auto simp: loop_body_def candidate_def Let_def split: option.splits)

lemma candidate_on_success:
  assumes "b < length d"
  shows "candidate (on_success d p h) b = candidate d b"
proof -
  have pe: "parentElement (on_success d p h) b = parentElement d b"
    using assms by (simp add: on_success_parentElement)
  have tg: "tagName (on_success d p h) q = tagName d q" if "parentElement d b = Some q" for q
  proof -
    from that have "q < length d" by (simp add: parentElement_Some)
    then show ?thesis
      using on_success_fields [of q d p h] by (simp add: tagName_def on_success_length)
  qed
  have tx: "textContent (on_success d p h) b = textContent d b"
    using assms on_success_fields [of b d p h] by (simp add: textContent_def on_success_length)
  have ha: "hasAttribute (on_success d p h) b a = hasAttribute d b a" for a
    using assms on_success_fields [of b d p h] by (simp add: hasAttribute_def on_success_length)
  show ?thesis
    using tg by (auto simp: candidate_def pe tx ha split: option.splits)
qed

lemma candidate_on_failure_iff:
  assumes "b < length d" and "b \<noteq> codeBlock p"
  shows "candidate (on_failure d p e) b = candidate d b"
proof -
  have pe: "parentElement (on_failure d p e) b = parentElement d b"
    using assms by (simp add: on_failure_parentElement)
  have tg: "tagName (on_failure d p e) q = tagName d q" if "parentElement d b = Some q" for q
  proof -
    from that have "q < length d" by (simp add: parentElement_Some)
    then show ?thesis
      using on_failure_fields [of q d p e] by (simp add: tagName_def on_failure_length)
  qed
  have tx: "textContent (on_failure d p e) b = textContent d b"
    using assms by (simp add: textContent_on_failure)
  have ha: "hasAttribute (on_failure d p e) b a = hasAttribute d b a" for a
    using assms by (simp add: hasAttribute_on_failure)
  show ?thesis
    using tg by (auto simp: candidate_def pe tx ha split: option.splits)
qed

lemma textContent_on_success:
  "b < length d \<Longrightarrow> textContent (on_success d p h) b = textContent d b"
  using on_success_fields [of b d p h] by (simp add: textContent_def on_success_length)

lemma settle_candidate:
  "b < length (document s) \<Longrightarrow> b \<noteq> codeBlock p \<Longrightarrow>
     candidate (document (settle s p out)) b = candidate (document s) b"
  by (cases out) (simp_all add: settle_document candidate_on_success candidate_on_failure_iff)

lemma settle_textContent:
  "b < length (document s) \<Longrightarrow>
     textContent (document (settle s p out)) b = textContent (document s) b"
  by (cases out) (simp_all add: settle_document textContent_on_success textContent_on_failure)

lemma upt_shift: "[n..<n + Suc m] = n # [Suc n..<Suc n + m]"
  by (simp add: upt_conv_Cons)

text \<open>
  A call that starts with an empty Rendering Set renders the candidates of its snapshot, one
  after the other in the order of the snapshot, each with the next identifier.
\<close>

lemma drive_calls:
  assumes "distinct L" and "\<forall>b\<in>set L. b < length (document s)" and "renderingRef s = {}"
  shows "render_calls (trace (drive r (scan s L))) =
     render_calls (trace s) @
       zip (map diagram_id [Suc (mermaidIdCounter s)..<
              Suc (mermaidIdCounter s) + length (filter (candidate (document s)) L)])
           (map (\<lambda>b. trim (textContent (document s) b)) (filter (candidate (document s)) L)) \<and>
     renderingRef (drive r (scan s L)) = {}"
  using assms
proof (induction L arbitrary: s)
  case Nil
  then show ?case by simp
next
  case (Cons b rest)
  show ?case
  proof (cases "candidate (document s) b")
    case False
    then have "scan s (b # rest) = scan s rest" by (simp add: loop_body_skip)
    with False Cons show ?thesis by simp
  next
    case True
    let ?T = "trim (textContent (document s) b)"
    let ?k = "mermaidIdCounter s"
    from Cons.prems(3) have nr: "?T \<notin> renderingRef s" by simp
    from loop_body_render [OF True nr] obtain pre s1 where
      lb: "loop_body s b = (s1, Some (pre, ?T, diagram_id (Suc ?k)))"
      and s1: "s1 = s\<lparr>mermaidIdCounter := Suc ?k,
        renderingRef := insert ?T (renderingRef s),
        document := setAttribute (document s) b ''data-mermaid-processed'' ''true'',
        trace := trace s @ [RenderCall (diagram_id (Suc ?k)) ?T]\<rparr>"
      by blast
    define p where "p = \<lparr>codeBlock = b, preElement = pre, mermaidSource = ?T,
      diagramId = diagram_id (Suc ?k), remaining = rest\<rparr>"
    define out where "out = r (diagramId p) (mermaidSource p)"
    define s2 where "s2 = settle s1 p out"
    from lb have sc: "scan s (b # rest) = (s1, Some p)" by (simp add: p_def)
    have rem: "remaining p = rest" by (simp add: p_def)
    have dr: "drive r (scan s (b # rest)) = drive r (scan s2 rest)"
      unfolding sc by (simp add: resume_def s2_def out_def rem)
    from s1 have d1: "document s1 = setAttribute (document s) b ''data-mermaid-processed'' ''true''"
      and k1: "mermaidIdCounter s1 = Suc ?k"
      and t1: "trace s1 = trace s @ [RenderCall (diagram_id (Suc ?k)) ?T]"
      and r1: "renderingRef s1 = insert ?T (renderingRef s)" by simp_all
    have len2: "length (document s) \<le> length (document s2)"
      using settle_length [of s1 p] by (simp add: s2_def d1)
    have k2: "mermaidIdCounter s2 = Suc ?k" by (simp add: s2_def settle_counter k1)
    have r2: "renderingRef s2 = {}"
      using Cons.prems(3) by (simp add: s2_def settle_renderingRef r1 p_def)
    have rc2: "render_calls (trace s2) = render_calls (trace s) @ [(diagram_id (Suc ?k), ?T)]"
      by (simp add: s2_def settle_render_calls t1 render_calls_append)
    have same: "candidate (document s2) b' = candidate (document s) b' \<and>
        textContent (document s2) b' = textContent (document s) b'" if "b' \<in> set rest" for b'
    proof -
      from that Cons.prems(1,2) have "b' \<noteq> b" and "b' < length (document s)" by auto
      then show ?thesis
        by (simp add: s2_def settle_candidate settle_textContent d1 p_def candidate_setAttribute)
    qed
    then have f: "filter (candidate (document s2)) rest = filter (candidate (document s)) rest"
      by (intro filter_cong) simp_all
    have m: "map (\<lambda>b. trim (textContent (document s2) b)) (filter (candidate (document s)) rest) =
        map (\<lambda>b. trim (textContent (document s) b)) (filter (candidate (document s)) rest)"
      using same by (intro map_cong) simp_all
    from Cons.prems have dis: "distinct rest" by simp
    have al: "\<forall>b\<in>set rest. b < length (document s2)"
    proof
      fix b' assume "b' \<in> set rest"
      with Cons.prems(2) have "b' < length (document s)" by simp
      with len2 show "b' < length (document s2)" by simp
    qed
    define C where "C = filter (candidate (document s)) rest"
    define U where "U = [Suc (Suc ?k)..<Suc (Suc ?k) + length C]"
    from Cons.IH [OF dis al r2]
    have ih: "render_calls (trace (drive r (scan s2 rest))) =
       render_calls (trace s2) @
         zip (map diagram_id U) (map (\<lambda>b. trim (textContent (document s) b)) C)"
      and rf: "renderingRef (drive r (scan s2 rest)) = {}"
      unfolding f m k2 U_def C_def by simp_all
    have F: "filter (candidate (document s)) (b # rest) = b # C"
      using True by (simp add: C_def)
    have u: "[Suc ?k..<Suc ?k + length (b # C)] = Suc ?k # U"
      unfolding U_def using upt_shift [of "Suc ?k" "length C"] by simp
    have "render_calls (trace (drive r (scan s2 rest))) =
        render_calls (trace s) @
          zip (map diagram_id (Suc ?k # U)) (map (\<lambda>b. trim (textContent (document s) b)) (b # C))"
      unfolding ih rc2 by simp
    then show ?thesis
      unfolding dr F u using rf by simp
  qed
qed

text \<open>Whatever the renders do, the events of one call alternate between call and settlement.\<close>

lemma drive_sequential:
  "\<exists>es. trace (drive r (s, po)) = trace s @ es \<and> sequential (map_option diagramId po) es"
proof (induction r "(s, po)" arbitrary: s po rule: drive.induct)
  case (1 render s)
  then show ?case by simp
next
  case (2 render s p)
  let ?out = "render (diagramId p) (mermaidSource p)"
  obtain s' po' where r: "resume s p ?out = (s', po')" by (cases "resume s p ?out")
  from "2.hyps" [OF r] obtain es where
    es: "trace (drive render (s', po')) = trace s' @ es" "sequential (map_option diagramId po') es"
    by blast
  from r have sc: "scan (settle s p ?out) (remaining p) = (s', po')" by (simp add: resume_def)
  let ?st = "RenderSettled (diagramId p) ?out #
       (case ?out of Resolved h \<Rightarrow> [] | Rejected e \<Rightarrow> [ConsoleError e])"
  have ts: "trace (settle s p ?out) = trace s @ ?st" by (rule settle_trace)
  show ?case
  proof (cases po')
    case None
    with scan_trace [OF sc] have "trace s' = trace s @ ?st" by (simp add: ts)
    moreover have "sequential (Some (diagramId p)) (?st @ es)"
      using es(2) None by (cases ?out) simp_all
    ultimately show ?thesis using es(1) r by simp
  next
    case (Some p')
    with scan_trace [OF sc]
    have "trace s' = trace s @ ?st @ [RenderCall (diagramId p') (mermaidSource p')]"
      by (simp add: ts)
    moreover have "sequential (Some (diagramId p))
        (?st @ RenderCall (diagramId p') (mermaidSource p') # es)"
      using es(2) Some by (cases ?out) simp_all
    ultimately show ?thesis using es(1) r by simp
  qed
qed

lemma run_pass_calls:
  assumes "containerRef s = Some c" and "distinct (querySelectorAll (document s) c)"
    and "renderingRef s = {}"
  shows "render_calls (trace (run_pass r s)) =
     render_calls (trace s) @
       zip (map diagram_id [Suc (mermaidIdCounter s)..<
              Suc (mermaidIdCounter s) +
                length (filter (candidate (document s)) (querySelectorAll (document s) c))])
           (map (\<lambda>b. trim (textContent (document s) b))
              (filter (candidate (document s)) (querySelectorAll (document s) c)))"
  using drive_calls [OF assms(2) _ assms(3), of r] assms(1)
  by (simp add: run_pass_def processMermaidBlocks_def querySelectorAll_allocated)

text \<open>
  A call that runs on its own is one of the runs of the system: the timer fires, and each
  render settles before anything else happens.
\<close>

lemma drive_reachable: "reachable (s, pending po) \<Longrightarrow> reachable (drive r (s, po), [])"
proof (induction r "(s, po)" arbitrary: s po rule: drive.induct)
  case (1 render s)
  then show ?case by (simp add: pending_def)
next
  case (2 render s p)
  let ?out = "render (diagramId p) (mermaidSource p)"
  obtain s' po' where r: "resume s p ?out = (s', po')" by (cases "resume s p ?out")
  have "step (s, [p]) (s', take 0 [p] @ pending po' @ drop (Suc 0) [p])"
    using step.settled [of 0 "[p]" s ?out s' po'] r by simp
  with "2.prems" have "reachable (s', pending po')"
    by (auto simp: pending_def intro: reachable.after)
  from "2.hyps" [OF r this] r show ?case by simp
qed

lemma run_pass_reachable: "reachable (s, []) \<Longrightarrow> reachable (run_pass r s, [])"
proof -
  assume a: "reachable (s, [])"
  obtain s' po where p: "processMermaidBlocks s = (s', po)" by (cases "processMermaidBlocks s")
  from step.invoke [OF p, of "[]"] a have "reachable (s', pending po)"
    by (auto intro: reachable.after)
  from drive_reachable [OF this, of r] p show ?thesis by (simp add: run_pass_def)
qed




section \<open>What a call keeps of the document\<close>

lemma grown_refl: "grown d d"
  by (simp add: grown_def)

lemma grown_trans:
  assumes "grown d d'" and "grown d' d''"
  shows "grown d d''"
proof -
  from assms have l: "length d \<le> length d'" "length d' \<le> length d''" by (simp_all add: grown_def)
  have ch: "filter (\<lambda>c. c < length d) (children (d'' ! m)) =
      (if m < length d then filter (\<lambda>c. c < length d) (children (d ! m)) else [])"
    if m: "m < length d''" for m
  proof -
    have "filter (\<lambda>c. c < length d) (children (d'' ! m)) =
        filter (\<lambda>c. c < length d) (filter (\<lambda>c. c < length d') (children (d'' ! m)))"
      using l by (auto intro: filter_cong)
    also have "\<dots> = filter (\<lambda>c. c < length d)
        (if m < length d' then filter (\<lambda>c. c < length d') (children (d' ! m)) else [])"
      using assms(2) m by (simp add: grown_def)
    also have "\<dots> = (if m < length d' then filter (\<lambda>c. c < length d) (children (d' ! m)) else [])"
      using l by (auto intro: filter_cong)
    also have "\<dots> = (if m < length d then filter (\<lambda>c. c < length d) (children (d ! m)) else [])"
      using assms(1) l by (auto simp: grown_def)
    finally show ?thesis .
  qed
  have tg: "tag (d'' ! m) = tag (d ! m) \<and>
         (''language-mermaid'' \<in> set (classes (d'' ! m))) =
           (''language-mermaid'' \<in> set (classes (d ! m)))" if "m < length d" for m
    using that assms l by (simp add: grown_def)
  have nw: "\<not> (tag (d'' ! m) = ''CODE'' \<and> ''language-mermaid'' \<in> set (classes (d'' ! m)))"
    if "m < length d''" "length d \<le> m" for m
  proof (cases "m < length d'")
    case True
    with that assms show ?thesis by (simp add: grown_def)
  next
    case False
    with that assms(2) show ?thesis by (simp add: grown_def)
  qed
  from l ch tg nw show ?thesis by (simp add: grown_def)
qed

lemma grown_setAttribute: "grown d (setAttribute d b a v)"
  by (simp add: grown_def setAttribute_fields)

lemma grown_on_success:
  assumes "plain h"
  shows "grown d (on_success d p h)"
proof -
  have "filter (\<lambda>c. c < length d) (children (on_success d p h ! m)) =
      (if m < length d then filter (\<lambda>c. c < length d) (children (d ! m)) else [])"
    if "m < length (on_success d p h)" for m
  proof (cases "m < length d")
    case True
    with on_success_children_weak [OF True, of p h] show ?thesis
      by (auto simp: filter_insert_after)
  next
    case False
    with that on_success_added [of d m p h]
    have "\<forall>c\<in>set (children (on_success d p h ! m)). length d \<le> c" by simp
    then have "filter (\<lambda>c. c < length d) (children (on_success d p h ! m)) = []"
      by (auto simp: filter_empty_conv)
    with False show ?thesis by simp
  qed
  moreover have "\<not> (tag (on_success d p h ! m) = ''CODE'' \<and>
      ''language-mermaid'' \<in> set (classes (on_success d p h ! m)))"
    if "m < length (on_success d p h)" "length d \<le> m" for m
    using on_success_added [OF that(2,1)] assms by blast
  moreover have "tag (on_success d p h ! m) = tag (d ! m) \<and>
         (''language-mermaid'' \<in> set (classes (on_success d p h ! m))) =
           (''language-mermaid'' \<in> set (classes (d ! m)))" if "m < length d" for m
    using on_success_fields [OF that, of p h] by auto
  moreover have "length d \<le> length (on_success d p h)" by (simp add: on_success_length)
  ultimately show ?thesis unfolding grown_def by blast
qed

lemma grown_on_failure: "grown d (on_failure d p e)"
proof -
  have "filter (\<lambda>c. c < length d) (children (on_failure d p e ! m)) =
      (if m < length d then filter (\<lambda>c. c < length d) (children (d ! m)) else [])"
    if "m < Suc (length d)" for m
  proof (cases "m < length d")
    case True
    then show ?thesis by (simp add: on_failure_children filter_insert_after)
  next
    case False
    with that have "m = length d" by simp
    then show ?thesis by (simp add: on_failure_new)
  qed
  moreover have "tag (on_failure d p e ! m) = ''DIV''" if "m < Suc (length d)" "length d \<le> m" for m
  proof -
    from that have "m = length d" by simp
    then show ?thesis by (simp add: on_failure_new)
  qed
  moreover have "tag (on_failure d p e ! m) = tag (d ! m) \<and>
         (''language-mermaid'' \<in> set (classes (on_failure d p e ! m))) =
           (''language-mermaid'' \<in> set (classes (d ! m)))" if "m < length d" for m
    using on_failure_fields [OF that, of p e] by auto
  ultimately show ?thesis by (simp add: grown_def on_failure_length)
qed

lemma grown_settle:
  "plain_outcome out \<Longrightarrow> grown (document s) (document (settle s p out))"
  by (cases out) (simp_all add: settle_document grown_on_success grown_on_failure plain_outcome_def)

lemma concat_map_filter:
  "(\<And>x. \<not> P x \<Longrightarrow> g x = []) \<Longrightarrow> concat (map g xs) = concat (map g (filter P xs))"
  by (induction xs) auto

lemma descendants_unallocated: "length d \<le> n \<Longrightarrow> descendants k d n = []"
  by (cases k) (simp_all add: childNodes_def)

lemma childNodes_grown:
  assumes "grown d d'"
  shows "filter (\<lambda>c. c < length d) (childNodes d' n) = filter (\<lambda>c. c < length d) (childNodes d n)"
  using assms by (auto simp: grown_def childNodes_def)

lemma descendants_grown:
  assumes "grown d d'"
  shows "filter (\<lambda>c. c < length d) (descendants k d' n) =
         filter (\<lambda>c. c < length d) (descendants k d n)"
proof (induction k arbitrary: n)
  case 0
  show ?case by simp
next
  case (Suc k)
  let ?old = "\<lambda>c. c < length d"
  let ?g = "\<lambda>c. if ?old c then c # filter ?old (descendants k d c) else []"
  have l: "filter ?old (c # descendants k d' c) = ?g c" for c
    using Suc.IH [of c] by (simp add: descendants_unallocated)
  have r: "filter ?old (c # descendants k d c) = ?g c" for c
    by (simp add: descendants_unallocated)
  have "filter ?old (descendants (Suc k) d' n) = concat (map ?g (childNodes d' n))"
    by (simp add: filter_concat comp_def l del: filter.simps)
  also have "\<dots> = concat (map ?g (filter ?old (childNodes d' n)))"
    by (rule concat_map_filter) simp
  also have "\<dots> = concat (map ?g (filter ?old (childNodes d n)))"
    by (simp only: childNodes_grown [OF assms])
  also have "\<dots> = concat (map ?g (childNodes d n))"
    by (rule concat_map_filter [symmetric]) simp
  also have "\<dots> = filter ?old (descendants (Suc k) d n)"
    by (simp add: filter_concat comp_def r del: filter.simps)
  finally show ?case .
qed

lemma matches_allocated: "matches_code_language_mermaid d n \<Longrightarrow> n < length d"
  by (auto simp: matches_code_language_mermaid_def tagName_def split: if_splits)

lemma matches_grown:
  assumes "grown d d'"
  shows "matches_code_language_mermaid d' n = matches_code_language_mermaid d n"
proof (cases "n < length d")
  case True
  with assms show ?thesis
    by (auto simp: matches_code_language_mermaid_def tagName_def classList_def grown_def)
next
  case False
  then have "\<not> matches_code_language_mermaid d n" using matches_allocated by blast
  moreover from False assms have "\<not> matches_code_language_mermaid d' n"
    by (auto simp: matches_code_language_mermaid_def tagName_def classList_def grown_def
        split: if_splits)
  ultimately show ?thesis by simp
qed

lemma descendants_enough:
  "depth_within k d n \<Longrightarrow> descendants (Suc k + j) d n = descendants (Suc k) d n"
proof (induction k arbitrary: n)
  case 0
  then show ?case by simp
next
  case (Suc k)
  then have "\<And>c. c \<in> set (childNodes d n) \<Longrightarrow>
      descendants (Suc k + j) d c = descendants (Suc k) d c" by simp
  then show ?case by (simp cong: map_cong)
qed

lemma querySelectorAll_grown:
  assumes "grown d d'" and "depth_within (length d - 1) d c" and "d \<noteq> []"
  shows "querySelectorAll d' c = querySelectorAll d c"
proof -
  let ?old = "\<lambda>n. n < length d"
  from assms(1) have "length d \<le> length d'" by (simp add: grown_def)
  then obtain j where j: "length d' = length d + j" by (auto simp: le_iff_add)
  from assms(3) obtain k where k: "length d = Suc k" by (cases d) auto
  with assms(2) have dw: "depth_within k d c" by simp
  have en: "descendants (length d') d c = descendants (length d) d c"
    unfolding j k by (rule descendants_enough [OF dw])
  have "querySelectorAll d' c =
      filter (matches_code_language_mermaid d) (descendants (length d') d' c)"
    by (simp add: querySelectorAll_def matches_grown [OF assms(1)] cong: filter_cong)
  also have "\<dots> = filter (matches_code_language_mermaid d)
      (filter ?old (descendants (length d') d' c))"
    by (auto simp: matches_allocated intro: filter_cong)
  also have "\<dots> = filter (matches_code_language_mermaid d)
      (filter ?old (descendants (length d') d c))"
    by (simp only: descendants_grown [OF assms(1)])
  also have "\<dots> = filter (matches_code_language_mermaid d) (descendants (length d') d c)"
    by (auto simp: matches_allocated intro: filter_cong)
  also have "\<dots> = querySelectorAll d c"
    by (simp add: querySelectorAll_def en)
  finally show ?thesis .
qed

lemma drive_scan_Cons:
  "drive r (scan s (b # rest)) =
     (case loop_body s b of
        (s1, None) \<Rightarrow> drive r (scan s1 rest)
      | (s1, Some (pre, src, i)) \<Rightarrow>
          drive r (scan (settle s1 \<lparr>codeBlock = b, preElement = pre, mermaidSource = src,
                                   diagramId = i, remaining = rest\<rparr> (r i src)) rest))"
  by (simp add: resume_def split: prod.splits option.splits)

lemma loop_body_document:
  assumes "loop_body s b = (s1, x)"
  shows "containerRef s1 = containerRef s \<and>
    (case x of None \<Rightarrow> document s1 = document s \<and> renderingRef s1 = renderingRef s
     | Some y \<Rightarrow> document s1 = setAttribute (document s) b ''data-mermaid-processed'' ''true'')"
proof (cases x)
  case None
  with assms loop_body_None [of s b s1] show ?thesis by auto
next
  case (Some y)
  obtain pre src i where "y = (pre, src, i)" by (cases y)
  with assms Some loop_body_Some [of s b s1 pre src i]
  have "s1 = s\<lparr>mermaidIdCounter := Suc (mermaidIdCounter s),
                renderingRef := insert src (renderingRef s),
                document := setAttribute (document s) b ''data-mermaid-processed'' ''true'',
                trace := trace s @ [RenderCall i src]\<rparr>" by blast
  then have "document s1 = setAttribute (document s) b ''data-mermaid-processed'' ''true''"
    and "containerRef s1 = containerRef s" by simp_all
  with Some show ?thesis by simp
qed

lemma settle_containerRef: "containerRef (settle s p out) = containerRef s"
  by (cases out) (simp_all add: settle_def Let_def)

lemma drive_grown:
  assumes "\<forall>i t. plain_outcome (r i t)"
  shows "grown (document s) (document (drive r (scan s L))) \<and>
   containerRef (drive r (scan s L)) = containerRef s"
proof (induction L arbitrary: s)
  case Nil
  show ?case by (simp add: grown_refl)
next
  case (Cons b rest)
  obtain s1 x where lb: "loop_body s b = (s1, x)" by (cases "loop_body s b")
  note ld = loop_body_document [OF lb]
  show ?case
  proof (cases x)
    case None
    with lb ld Cons.IH [of s1] show ?thesis by (simp only: drive_scan_Cons) simp
  next
    case (Some y)
    obtain pre src i where y: "y = (pre, src, i)" by (cases y)
    define p where "p = \<lparr>codeBlock = b, preElement = pre, mermaidSource = src,
                                   diagramId = i, remaining = rest\<rparr>"
    define s2 where "s2 = settle s1 p (r i src)"
    from lb Some y have dr: "drive r (scan s (b # rest)) = drive r (scan s2 rest)"
      by (simp add: drive_scan_Cons s2_def p_def resume_def)
    from ld Some have "grown (document s) (document s1)" by (simp add: grown_setAttribute)
    moreover have "grown (document s1) (document s2)" using assms by (simp add: s2_def grown_settle)
    moreover from Cons.IH [of s2] have "grown (document s2) (document (drive r (scan s2 rest)))"
      and c: "containerRef (drive r (scan s2 rest)) = containerRef s2" by simp_all
    ultimately have "grown (document s) (document (drive r (scan s2 rest)))"
      by (blast intro: grown_trans)
    moreover from c ld have "containerRef (drive r (scan s2 rest)) = containerRef s"
      by (simp add: s2_def settle_containerRef)
    ultimately show ?thesis unfolding dr by simp
  qed
qed

text \<open>With renders that all succeed, a block that is not a candidate does not become one.\<close>

lemma not_candidate_setAttribute:
  "\<not> candidate d b \<Longrightarrow> \<not> candidate (setAttribute d b' ''data-mermaid-processed'' v) b"
  by (auto simp: candidate_def hasAttribute_setAttribute split: option.splits)

lemma drive_not_candidate:
  assumes "\<not> candidate (document s) b" and "b < length (document s)"
  shows "\<not> candidate (document (drive (\<lambda>i t. Resolved (svg i t)) (scan s L))) b"
  using assms
proof (induction L arbitrary: s)
  case Nil
  then show ?case by simp
next
  case (Cons b0 rest)
  let ?r = "\<lambda>i t. Resolved (svg i t)"
  obtain s1 x where lb: "loop_body s b0 = (s1, x)" by (cases "loop_body s b0")
  note ld = loop_body_document [OF lb]
  show ?case
  proof (cases x)
    case None
    with lb ld Cons.IH [of s1] Cons.prems show ?thesis by (simp only: drive_scan_Cons) simp
  next
    case (Some y)
    obtain pre src i where y: "y = (pre, src, i)" by (cases y)
    define p where "p = \<lparr>codeBlock = b0, preElement = pre, mermaidSource = src,
                                   diagramId = i, remaining = rest\<rparr>"
    define s2 where "s2 = settle s1 p (Resolved (svg i src))"
    from lb Some y have dr: "drive ?r (scan s (b0 # rest)) = drive ?r (scan s2 rest)"
      by (simp add: drive_scan_Cons s2_def p_def resume_def)
    from ld Some Cons.prems have n1: "\<not> candidate (document s1) b" and l1: "b < length (document s1)"
      by (simp_all add: not_candidate_setAttribute)
    then have "\<not> candidate (document s2) b" and "b < length (document s2)"
      by (simp_all add: s2_def settle_document candidate_on_success on_success_length)
    from Cons.IH [OF this] show ?thesis unfolding dr by simp
  qed
qed

text \<open>
  After a call that started with an empty Rendering Set and whose renders all succeeded,
  no block of its snapshot is a candidate.
\<close>

lemma drive_done:
  assumes "renderingRef s = {}" and "\<forall>b\<in>set L. b < length (document s)"
  shows "(\<forall>b\<in>set L. \<not> candidate (document (drive (\<lambda>i t. Resolved (svg i t)) (scan s L))) b) \<and>
    renderingRef (drive (\<lambda>i t. Resolved (svg i t)) (scan s L)) = {}"
  using assms
proof (induction L arbitrary: s)
  case Nil
  then show ?case by simp
next
  case (Cons b0 rest)
  let ?r = "\<lambda>i t. Resolved (svg i t)"
  from Cons.prems have b0: "b0 < length (document s)" by simp
  show ?case
  proof (cases "candidate (document s) b0")
    case False
    then have dr: "drive ?r (scan s (b0 # rest)) = drive ?r (scan s rest)"
      by (simp add: loop_body_skip)
    from Cons.IH [of s] Cons.prems
    have "\<forall>b\<in>set rest. \<not> candidate (document (drive ?r (scan s rest))) b"
      and "renderingRef (drive ?r (scan s rest)) = {}" by simp_all
    moreover from drive_not_candidate [OF False b0]
    have "\<not> candidate (document (drive ?r (scan s rest))) b0" .
    ultimately show ?thesis unfolding dr by simp
  next
    case True
    let ?T = "trim (textContent (document s) b0)"
    from Cons.prems(1) have nr: "?T \<notin> renderingRef s" by simp
    from loop_body_render [OF True nr] obtain pre s1 where
      lb: "loop_body s b0 = (s1, Some (pre, ?T, diagram_id (Suc (mermaidIdCounter s))))"
      and s1: "s1 = s\<lparr>mermaidIdCounter := Suc (mermaidIdCounter s),
        renderingRef := insert ?T (renderingRef s),
        document := setAttribute (document s) b0 ''data-mermaid-processed'' ''true'',
        trace := trace s @ [RenderCall (diagram_id (Suc (mermaidIdCounter s))) ?T]\<rparr>"
      by blast
    define p where "p = \<lparr>codeBlock = b0, preElement = pre, mermaidSource = ?T,
      diagramId = diagram_id (Suc (mermaidIdCounter s)), remaining = rest\<rparr>"
    define s2 where "s2 = settle s1 p (Resolved (svg (diagram_id (Suc (mermaidIdCounter s))) ?T))"
    from lb have dr: "drive ?r (scan s (b0 # rest)) = drive ?r (scan s2 rest)"
      by (simp add: drive_scan_Cons s2_def p_def resume_def)
    from s1 have d1: "document s1 = setAttribute (document s) b0 ''data-mermaid-processed'' ''true''"
      and r1: "renderingRef s1 = insert ?T (renderingRef s)" by simp_all
    have r2: "renderingRef s2 = {}"
      using Cons.prems(1) by (simp add: s2_def settle_renderingRef r1 p_def)
    have len2: "length (document s) \<le> length (document s2)"
      using settle_length [of s1 p] by (simp add: s2_def d1)
    from b0 have "\<not> candidate (document s1) b0"
      by (simp add: d1 candidate_def hasAttribute_setAttribute)
    with b0 have n2: "\<not> candidate (document s2) b0"
      by (simp add: s2_def settle_document candidate_on_success d1)
    have "\<forall>b\<in>set rest. b < length (document s2)"
    proof
      fix b' assume "b' \<in> set rest"
      with Cons.prems(2) have "b' < length (document s)" by simp
      with len2 show "b' < length (document s2)" by simp
    qed
    from Cons.IH [OF r2 this]
    have "\<forall>b\<in>set rest. \<not> candidate (document (drive ?r (scan s2 rest))) b"
      and "renderingRef (drive ?r (scan s2 rest)) = {}" by simp_all
    moreover from b0 have "b0 < length (document s2)" using len2 by simp
    from drive_not_candidate [OF n2 this]
    have "\<not> candidate (document (drive ?r (scan s2 rest))) b0" .
    ultimately show ?thesis unfolding dr by simp
  qed
qed

lemma scan_nothing: "\<forall>b\<in>set L. \<not> candidate (document s) b \<Longrightarrow> scan s L = (s, None)"
  by (induction L) (simp_all add: loop_body_skip)


section \<open>A render that succeeds\<close>

lemma reachable_first_call:
  "reachable (first_call d, pending (snd (processMermaidBlocks (page d))))"
proof -
  obtain s1 p1 where c1: "processMermaidBlocks (page d) = (s1, p1)"
    by (cases "processMermaidBlocks (page d)")
  have "reachable (page d, [])" by (rule reachable.initial) (simp_all add: page_def)
  then have "reachable (s1, [] @ pending p1)" using step.invoke [OF c1] by (rule reachable.after)
  with c1 show ?thesis by (simp add: first_call_def)
qed

lemma one_block_first_call:
  "snd (processMermaidBlocks (page one_block)) = Some one_block_awaiting \<and>
   parentElement (document (first_call one_block)) 1 = Some 0 \<and>
   preElement one_block_awaiting = 1 \<and>
   length (document (first_call one_block)) = 3"
  by code_simp

lemma reachable_one_block: "reachable (first_call one_block, [one_block_awaiting])"
  using reachable_first_call [of one_block] one_block_first_call by (simp add: pending_def)

lemma reachable_one_block_detached: "reachable (one_block_detached, [one_block_awaiting])"
proof -
  have "step (first_call one_block, [one_block_awaiting])
      ((first_call one_block)\<lparr>document := replaceChildren (document (first_call one_block)) 0\<rparr>,
       [one_block_awaiting])"
    by (rule step.mutated) (simp add: replaceChildren_def)
  with reachable_one_block show ?thesis
    unfolding one_block_detached_def by (rule reachable.after)
qed

text \<open>
  C5 as stated fails. On the page with one block the first call suspends at the render of
  the block; the host then empties the container, so the \<open>PRE\<close> element has no parent when
  the render resolves. The Diagram Output container is created, but no child list changes:
  it is inserted nowhere, and the \<open>PRE\<close> element has no next sibling. The \<open>PRE\<close> element
  is given the class \<open>mermaid-hidden\<close> all the same.
\<close>

theorem detached_success_counterexample:
  "reachable (one_block_detached, [one_block_awaiting]) \<and>
   preElement one_block_awaiting = 1 \<and>
   parentElement (document one_block_detached) 1 = None \<and>
   length (document one_block_detached) = 3 \<and>
   classList (document (settle one_block_detached one_block_awaiting (Resolved svg_ok))) 3 =
     [''mermaid-container''] \<and>
   map (childNodes (document (settle one_block_detached one_block_awaiting (Resolved svg_ok))))
     [0, 1, 2] = map (childNodes (document one_block_detached)) [0, 1, 2] \<and>
   parentElement (document (settle one_block_detached one_block_awaiting (Resolved svg_ok))) 3 =
     None \<and>
   nextElementSibling
     (document (settle one_block_detached one_block_awaiting (Resolved svg_ok))) 1 = None \<and>
   classList (document (settle one_block_detached one_block_awaiting (Resolved svg_ok))) 1 =
     [''mermaid-hidden'']"
proof -
  have "preElement one_block_awaiting = 1 \<and>
   parentElement (document one_block_detached) 1 = None \<and>
   length (document one_block_detached) = 3 \<and>
   classList (document (settle one_block_detached one_block_awaiting (Resolved svg_ok))) 3 =
     [''mermaid-container''] \<and>
   map (childNodes (document (settle one_block_detached one_block_awaiting (Resolved svg_ok))))
     [0, 1, 2] = map (childNodes (document one_block_detached)) [0, 1, 2] \<and>
   parentElement (document (settle one_block_detached one_block_awaiting (Resolved svg_ok))) 3 =
     None \<and>
   nextElementSibling
     (document (settle one_block_detached one_block_awaiting (Resolved svg_ok))) 1 = None \<and>
   classList (document (settle one_block_detached one_block_awaiting (Resolved svg_ok))) 1 =
     [''mermaid-hidden'']"
    by code_simp
  with reachable_one_block_detached show ?thesis by simp
qed

text \<open>
  C5, as amended. Take a suspended call of a reachable system whose render resolves, with
  markup \<open>h\<close>. The new elements are one \<open>DIV\<close> of class \<open>mermaid-container\<close>, which
  holds the markup, has its text and has its top-level elements as children, and after it
  the elements of the markup. When the \<open>PRE\<close> element has a parent at that time, the
  container is inserted into the child list of that parent right after the \<open>PRE\<close>
  element, so it is the next sibling; that child list is one longer and no other child list
  changes. When it has none, no child list changes. In both cases the \<open>PRE\<close> element has
  the class \<open>mermaid-hidden\<close> afterwards and no other element changes class; every
  element of the document, the code block among them, keeps its tag, its parent and its
  children, and those that are not ancestors of the \<open>PRE\<close> element keep their text.
\<close>

theorem successful_render_patch:
  assumes "reachable (s, ps)" and "p \<in> set ps"
  shows "length (document (settle s p (Resolved h))) =
      Suc (length (document s) + length (nodes h)) \<and>
    document (settle s p (Resolved h)) ! length (document s) =
      \<lparr>tag = ''DIV'', classes = [''mermaid-container''], attrs = [], content = inner_text h,
       markup = source h, children = map (\<lambda>k. Suc (length (document s) + k)) (roots h)\<rparr> \<and>
    (\<forall>k<length (nodes h).
       document (settle s p (Resolved h)) ! (Suc (length (document s)) + k) =
         relocate (Suc (length (document s))) (nodes h ! k)) \<and>
    (\<forall>par. parentElement (document s) (preElement p) = Some par \<longrightarrow>
       nextElementSibling (document (settle s p (Resolved h))) (preElement p) =
         Some (length (document s)) \<and>
       childNodes (document (settle s p (Resolved h))) par =
         insert_after (preElement p) (length (document s)) (childNodes (document s) par) \<and>
       length (childNodes (document (settle s p (Resolved h))) par) =
         Suc (length (childNodes (document s) par)) \<and>
       (\<forall>m<length (document s). m \<noteq> par \<longrightarrow>
          childNodes (document (settle s p (Resolved h))) m = childNodes (document s) m)) \<and>
    (parentElement (document s) (preElement p) = None \<longrightarrow>
       (\<forall>m<length (document s).
          childNodes (document (settle s p (Resolved h))) m = childNodes (document s) m)) \<and>
    ''mermaid-hidden'' \<in> set (classList (document (settle s p (Resolved h))) (preElement p)) \<and>
    (\<forall>m<length (document s). m \<noteq> preElement p \<longrightarrow>
       classList (document (settle s p (Resolved h))) m = classList (document s) m) \<and>
    (\<forall>m<length (document s).
       tagName (document (settle s p (Resolved h))) m = tagName (document s) m \<and>
       parentElement (document (settle s p (Resolved h))) m = parentElement (document s) m \<and>
       set (childNodes (document s) m) \<subseteq>
         set (childNodes (document (settle s p (Resolved h))) m)) \<and>
    (\<forall>m<length (document s).
       m \<notin> set (ancestors (length (document s)) (document s) (preElement p)) \<longrightarrow>
       textContent (document (settle s p (Resolved h))) m = textContent (document s) m)"
proof -
  let ?d = "document s" and ?d' = "on_success (document s) p h"
  have doc: "document (settle s p (Resolved h)) = ?d'" by (simp add: settle_document)
  from reachable_allocated [OF assms(1)] assms(2)
  have pl: "preElement p < length ?d" by (simp add: allocated_def)
  have len: "length ?d' = Suc (length ?d + length (nodes h))" by (rule on_success_length)
  have new: "?d' ! length ?d =
      \<lparr>tag = ''DIV'', classes = [''mermaid-container''], attrs = [], content = inner_text h,
       markup = source h, children = map (\<lambda>k. Suc (length ?d + k)) (roots h)\<rparr>"
    using on_success_container [OF pl, of h] by (simp add: diagram_element_def)
  have parsed: "\<forall>k<length (nodes h).
      ?d' ! (Suc (length ?d) + k) = relocate (Suc (length ?d)) (nodes h ! k)"
    using on_success_parsed [OF pl] by blast
  have attached: "nextElementSibling ?d' (preElement p) = Some (length ?d) \<and>
       childNodes ?d' par = insert_after (preElement p) (length ?d) (childNodes ?d par) \<and>
       length (childNodes ?d' par) = Suc (length (childNodes ?d par)) \<and>
       (\<forall>m<length ?d. m \<noteq> par \<longrightarrow> childNodes ?d' m = childNodes ?d m)"
    if pp: "parentElement ?d (preElement p) = Some par" for par
  proof -
    from pp have par: "par < length ?d" and mem: "preElement p \<in> set (children (?d ! par))"
      by (simp_all add: parentElement_Some)
    have ch: "children (?d' ! par) = insert_after (preElement p) (length ?d) (children (?d ! par))"
      using par pl pp by (simp add: on_success_children)
    have pp': "parentElement ?d' (preElement p) = Some par"
      using pp pl by (simp add: on_success_parentElement)
    have sib: "nextElementSibling ?d' (preElement p) = Some (length ?d)"
      using pp pp' ch by (rule nextElementSibling_inserted)
    have chn: "childNodes ?d' par = insert_after (preElement p) (length ?d) (childNodes ?d par)"
      using par ch len by (simp add: childNodes_def)
    have chl: "length (childNodes ?d' par) = Suc (length (childNodes ?d par))"
      using par mem chn by (simp add: childNodes_def length_insert_after)
    have others: "\<forall>m<length ?d. m \<noteq> par \<longrightarrow> childNodes ?d' m = childNodes ?d m"
      using pp pl len by (simp add: childNodes_def on_success_children)
    from sib chn chl others show ?thesis by blast
  qed
  have detached: "\<forall>m<length ?d. childNodes ?d' m = childNodes ?d m"
    if "parentElement ?d (preElement p) = None"
    using that pl len by (simp add: childNodes_def on_success_children)
  have hidden: "''mermaid-hidden'' \<in> set (classList ?d' (preElement p))"
    using pl len on_success_fields [of "preElement p" ?d p h]
    by (auto simp: classList_def)
  have cls: "\<forall>m<length ?d. m \<noteq> preElement p \<longrightarrow> classList ?d' m = classList ?d m"
    using len on_success_fields [of _ ?d p h] by (simp add: classList_def)
  have keeps: "\<forall>m<length ?d.
       tagName ?d' m = tagName ?d m \<and> parentElement ?d' m = parentElement ?d m \<and>
       set (childNodes ?d m) \<subseteq> set (childNodes ?d' m)"
  proof (intro allI impI)
    fix m assume m: "m < length ?d"
    from m len on_success_fields [of m ?d p h]
    have "tagName ?d' m = tagName ?d m" by (simp add: tagName_def)
    moreover from m have "parentElement ?d' m = parentElement ?d m"
      by (rule on_success_parentElement)
    moreover from settle_keeps [OF m, of p "Resolved h"]
    have "set (childNodes ?d m) \<subseteq> set (childNodes ?d' m)" by (simp add: doc)
    ultimately show "tagName ?d' m = tagName ?d m \<and> parentElement ?d' m = parentElement ?d m \<and>
       set (childNodes ?d m) \<subseteq> set (childNodes ?d' m)" by blast
  qed
  have texts: "\<forall>m<length ?d. m \<notin> set (ancestors (length ?d) ?d (preElement p)) \<longrightarrow>
       textContent ?d' m = textContent ?d m"
    by (simp add: textContent_on_success)
  show ?thesis
    unfolding doc using len new parsed attached detached hidden cls keeps texts by blast
qed

theorem successful_render_patch_witness:
  "reachable (first_call one_block, [one_block_awaiting]) \<and>
   one_block_awaiting \<in> set [one_block_awaiting] \<and>
   parentElement (document (first_call one_block)) 1 = Some 0 \<and>
   document (settle (first_call one_block) one_block_awaiting (Resolved svg_ok)) ! 3 =
     \<lparr>tag = ''DIV'', classes = [''mermaid-container''], attrs = [], content = ''ok'',
      markup = ''<svg>ok</svg>'', children = [4]\<rparr> \<and>
   nextElementSibling
     (document (settle (first_call one_block) one_block_awaiting (Resolved svg_ok))) 1 =
     Some 3 \<and>
   childNodes
     (document (settle (first_call one_block) one_block_awaiting (Resolved svg_ok))) 0 =
     [1, 3] \<and>
   ''mermaid-hidden'' \<in> set (classList
     (document (settle (first_call one_block) one_block_awaiting (Resolved svg_ok))) 1)"
proof -
  note f = one_block_first_call
  from f have pp: "parentElement (document (first_call one_block)) 1 = Some 0"
    and pre: "preElement one_block_awaiting = 1"
    and len: "length (document (first_call one_block)) = 3" by blast+
  have m: "one_block_awaiting \<in> set [one_block_awaiting]" by simp
  have ch: "insert_after 1 3 (childNodes (document (first_call one_block)) 0) = [1, 3]"
    by code_simp
  have sv: "inner_text svg_ok = ''ok''" "source svg_ok = ''<svg>ok</svg>''"
    "map (\<lambda>k. Suc (3 + k)) (roots svg_ok) = [4]"
    by (simp_all add: svg_ok_def)
  note t = successful_render_patch [OF reachable_one_block m, of svg_ok, unfolded pre len sv]
  from t have "document (settle (first_call one_block) one_block_awaiting (Resolved svg_ok)) ! 3 =
     \<lparr>tag = ''DIV'', classes = [''mermaid-container''], attrs = [], content = ''ok'',
      markup = ''<svg>ok</svg>'', children = [4]\<rparr>"
    by blast
  moreover from t pp have "nextElementSibling
     (document (settle (first_call one_block) one_block_awaiting (Resolved svg_ok))) 1 =
     Some 3 \<and>
    childNodes
     (document (settle (first_call one_block) one_block_awaiting (Resolved svg_ok))) 0 =
     insert_after 1 3 (childNodes (document (first_call one_block)) 0)"
    by blast
  moreover from t have "''mermaid-hidden'' \<in> set (classList
     (document (settle (first_call one_block) one_block_awaiting (Resolved svg_ok))) 1)"
    by blast
  ultimately show ?thesis using reachable_one_block pp m unfolding ch by simp
qed


section \<open>A render that fails\<close>







section \<open>Repeated failures\<close>

lemma insert_after_append:
  "x \<notin> set us \<Longrightarrow> insert_after x y (us @ x # vs) = us @ x # y # vs"
  by (induction us) auto

lemma on_failure_untouched:
  assumes "m < length d" and "m \<noteq> codeBlock p" and "parentElement d (preElement p) \<noteq> Some m"
  shows "on_failure d p e ! m = d ! m"
proof -
  from on_failure_fields [OF assms(1), of p e] on_failure_children [OF assms(1), of p e] assms(2,3)
  have "tag (on_failure d p e ! m) = tag (d ! m)"
    "classes (on_failure d p e ! m) = classes (d ! m)"
    "attrs (on_failure d p e ! m) = attrs (d ! m)"
    "content (on_failure d p e ! m) = content (d ! m)"
    "markup (on_failure d p e ! m) = markup (d ! m)"
    "children (on_failure d p e ! m) = children (d ! m)"
    by simp_all
  then show ?thesis by (rule element.equality) simp
qed

lemma setAttribute_untouched: "m \<noteq> b \<Longrightarrow> setAttribute d b a v ! m = d ! m"
  by (simp add: setAttribute_def nth_modify)

text \<open>What one failed attempt on a candidate block does.\<close>

lemma failed_attempt_effect:
  assumes c: "candidate (document s) b"
    and pb: "parentElement (document s) b = Some pre"
    and pp: "parentElement (document s) pre = Some par"
    and nr: "trim (textContent (document s) b) \<notin> renderingRef s"
  shows "length (document (failed_attempt b s e)) = Suc (length (document s))"
    and "document (failed_attempt b s e) ! length (document s) = error_element e"
    and "childNodes (document (failed_attempt b s e)) par =
           insert_after pre (length (document s)) (childNodes (document s) par)"
    and "\<forall>m<length (document s). classList (document (failed_attempt b s e)) m = classList (document s) m"
    and "\<forall>m<length (document s). m \<noteq> b \<and> m \<noteq> par \<longrightarrow>
           document (failed_attempt b s e) ! m = document s ! m"
    and "candidate (document (failed_attempt b s e)) b"
    and "parentElement (document (failed_attempt b s e)) b = Some pre"
    and "parentElement (document (failed_attempt b s e)) pre = Some par"
    and "textContent (document (failed_attempt b s e)) b = textContent (document s) b"
    and "renderingRef (failed_attempt b s e) = renderingRef s"
proof -
  let ?T = "trim (textContent (document s) b)"
  let ?d = "document s"
  let ?d1 = "setAttribute ?d b ''data-mermaid-processed'' ''true''"
  from loop_body_render [OF c nr] pb obtain s1 i where
    lb: "loop_body s b = (s1, Some (pre, ?T, i))"
    and s1: "s1 = s\<lparr>mermaidIdCounter := Suc (mermaidIdCounter s),
        renderingRef := insert ?T (renderingRef s),
        document := ?d1,
        trace := trace s @ [RenderCall (diagram_id (Suc (mermaidIdCounter s))) ?T]\<rparr>"
    by auto
  define p where "p = \<lparr>codeBlock = b, preElement = pre, mermaidSource = ?T, diagramId = i,
      remaining = []\<rparr>"
  from lb have fa: "failed_attempt b s e = settle s1 p (Rejected e)"
    by (simp add: failed_attempt_def resume_def p_def)
  from s1 have d1: "document s1 = ?d1" by simp
  have doc: "document (failed_attempt b s e) = on_failure ?d1 p e"
    by (simp add: fa settle_document d1)
  from loop_body_awaits [OF lb, of "[]"] have aw: "awaits ?d1 p" by (simp add: p_def d1)
  from c have bl: "b < length ?d" by (rule candidate_length)
  from pb have prel: "pre < length ?d" by (simp add: parentElement_Some)
  from pp have parl: "par < length ?d" by (simp add: parentElement_Some)
  have pp1: "parentElement ?d1 (preElement p) = Some par" using pp by (simp add: p_def)
  show "length (document (failed_attempt b s e)) = Suc (length (document s))"
    by (simp add: doc on_failure_length)
  show "document (failed_attempt b s e) ! length (document s) = error_element e"
    using on_failure_new [of ?d1 p e] by (simp add: doc error_element_def)
  show "childNodes (document (failed_attempt b s e)) par =
           insert_after pre (length (document s)) (childNodes (document s) par)"
    using parl pp1 on_failure_children [of par ?d1 p e]
    by (simp add: doc childNodes_def on_failure_length setAttribute_fields p_def)
  show "\<forall>m<length (document s). classList (document (failed_attempt b s e)) m = classList (document s) m"
    using on_failure_fields [of _ ?d1 p e]
    by (simp add: doc classList_def on_failure_length setAttribute_fields)
  show "\<forall>m<length (document s). m \<noteq> b \<and> m \<noteq> par \<longrightarrow>
           document (failed_attempt b s e) ! m = document s ! m"
  proof (intro allI impI)
    fix m assume m: "m < length ?d" and ne: "m \<noteq> b \<and> m \<noteq> par"
    with pp1 have "on_failure ?d1 p e ! m = ?d1 ! m"
      by (intro on_failure_untouched) (simp_all add: p_def)
    with ne show "document (failed_attempt b s e) ! m = document s ! m"
      by (simp add: doc setAttribute_untouched)
  qed
  show "candidate (document (failed_attempt b s e)) b"
    using awaits_on_failure [OF aw, of e] by (simp add: doc p_def)
  show "parentElement (document (failed_attempt b s e)) b = Some pre"
    using bl pb by (simp add: doc on_failure_parentElement)
  show "parentElement (document (failed_attempt b s e)) pre = Some par"
    using prel pp by (simp add: doc on_failure_parentElement)
  show "textContent (document (failed_attempt b s e)) b = textContent (document s) b"
    using bl by (simp add: doc textContent_on_failure)
  show "renderingRef (failed_attempt b s e) = renderingRef s"
    using nr by (simp add: fa settle_renderingRef s1 p_def)
qed

lemma failed_attempt_frame:
  assumes c: "candidate (document s) b"
    and nr: "trim (textContent (document s) b) \<notin> renderingRef s"
  shows "containerRef (failed_attempt b s e) = containerRef s"
    and "renderingRef (failed_attempt b s e) = renderingRef s"
    and "mermaidIdCounter (failed_attempt b s e) = Suc (mermaidIdCounter s)"
    and "grown (document s) (document (failed_attempt b s e))"
    and "render_calls (trace (failed_attempt b s e)) =
           render_calls (trace s) @
             [(diagram_id (Suc (mermaidIdCounter s)), trim (textContent (document s) b))]"
    and "candidate (document (failed_attempt b s e)) b"
    and "textContent (document (failed_attempt b s e)) b = textContent (document s) b"
    and "\<forall>x<length (document s). x \<noteq> b \<longrightarrow>
           candidate (document (failed_attempt b s e)) x = candidate (document s) x"
proof -
  let ?T = "trim (textContent (document s) b)"
  let ?d = "document s"
  let ?d1 = "setAttribute ?d b ''data-mermaid-processed'' ''true''"
  from loop_body_render [OF c nr] obtain pre s1 i where
    lb: "loop_body s b = (s1, Some (pre, ?T, i))"
    and i: "i = diagram_id (Suc (mermaidIdCounter s))"
    and s1: "s1 = s\<lparr>mermaidIdCounter := Suc (mermaidIdCounter s),
        renderingRef := insert ?T (renderingRef s),
        document := ?d1,
        trace := trace s @ [RenderCall (diagram_id (Suc (mermaidIdCounter s))) ?T]\<rparr>"
    by auto
  define p where "p = \<lparr>codeBlock = b, preElement = pre, mermaidSource = ?T, diagramId = i,
      remaining = []\<rparr>"
  from lb have fa: "failed_attempt b s e = settle s1 p (Rejected e)"
    by (simp add: failed_attempt_def resume_def p_def)
  from s1 have d1: "document s1 = ?d1" by simp
  have doc: "document (failed_attempt b s e) = on_failure ?d1 p e"
    by (simp add: fa settle_document d1)
  from loop_body_awaits [OF lb, of "[]"] have aw: "awaits ?d1 p" by (simp add: p_def d1)
  from c have bl: "b < length ?d" by (rule candidate_length)
  show "containerRef (failed_attempt b s e) = containerRef s"
    by (simp add: fa settle_containerRef s1)
  show "renderingRef (failed_attempt b s e) = renderingRef s"
    using nr by (simp add: fa settle_renderingRef s1 p_def)
  show "mermaidIdCounter (failed_attempt b s e) = Suc (mermaidIdCounter s)"
    by (simp add: fa settle_counter s1)
  have "grown ?d ?d1" by (rule grown_setAttribute)
  moreover have "grown ?d1 (on_failure ?d1 p e)" by (rule grown_on_failure)
  ultimately show "grown (document s) (document (failed_attempt b s e))"
    unfolding doc by (rule grown_trans)
  show "render_calls (trace (failed_attempt b s e)) =
           render_calls (trace s) @ [(diagram_id (Suc (mermaidIdCounter s)), ?T)]"
    by (simp add: fa settle_render_calls s1 render_calls_append)
  show "candidate (document (failed_attempt b s e)) b"
    using awaits_on_failure [OF aw, of e] by (simp add: doc p_def)
  show "textContent (document (failed_attempt b s e)) b = textContent (document s) b"
    using bl by (simp add: doc textContent_on_failure)
  show "\<forall>x<length (document s). x \<noteq> b \<longrightarrow>
           candidate (document (failed_attempt b s e)) x = candidate (document s) x"
    by (simp add: doc candidate_on_failure_iff p_def candidate_setAttribute)
qed

lemma failed_attempts_Cons:
  "failed_attempts b s (e # es) = failed_attempts b (failed_attempt b s e) es"
  by (simp add: failed_attempts_def)

lemma rev_upt_shift: "rev [Suc n..<Suc n + k] @ n # vs = rev [n..<n + Suc k] @ vs"
proof -
  have "[n..<n + Suc k] = n # [Suc n..<Suc n + k]" by (simp add: upt_conv_Cons)
  then show ?thesis by simp
qed

lemma failed_attempts_effect:
  assumes "candidate (document s) b"
    and "parentElement (document s) b = Some pre"
    and "parentElement (document s) pre = Some par"
    and "trim (textContent (document s) b) \<notin> renderingRef s"
    and "childNodes (document s) par = us @ pre # vs"
    and "pre \<notin> set us"
  shows "length (document (failed_attempts b s es)) = length (document s) + length es \<and>
    childNodes (document (failed_attempts b s es)) par =
      us @ pre # rev [length (document s)..<length (document s) + length es] @ vs \<and>
    (\<forall>j<length es. document (failed_attempts b s es) ! (length (document s) + j) =
       error_element (es ! j)) \<and>
    (\<forall>m<length (document s). classList (document (failed_attempts b s es)) m =
       classList (document s) m) \<and>
    (\<forall>m<length (document s). m \<noteq> b \<and> m \<noteq> par \<longrightarrow>
       document (failed_attempts b s es) ! m = document s ! m)"
  using assms
proof (induction es arbitrary: s vs)
  case Nil
  then show ?case by (simp add: failed_attempts_def)
next
  case (Cons e es)
  let ?n = "length (document s)"
  let ?s1 = "failed_attempt b s e"
  note fx = failed_attempt_effect [OF Cons.prems(1-4), of e]
  from Cons.prems(2) have bl: "b < ?n" and prel: "pre < ?n"
    using candidate_length [OF Cons.prems(1)] by (simp_all add: parentElement_Some)
  from Cons.prems(3) have parl: "par < ?n" by (simp add: parentElement_Some)
  have ch1: "childNodes (document ?s1) par = us @ pre # (?n # vs)"
    using fx(3) Cons.prems(5,6) by (simp add: insert_after_append)
  have nr1: "trim (textContent (document ?s1) b) \<notin> renderingRef ?s1"
    using fx(9,10) Cons.prems(4) by simp
  note ih = Cons.IH [OF fx(6) fx(7) fx(8) nr1 ch1 Cons.prems(6)]
  have len1: "length (document ?s1) = Suc ?n" by (rule fx(1))
  from ih have l: "length (document (failed_attempts b ?s1 es)) = Suc ?n + length es"
    and c: "childNodes (document (failed_attempts b ?s1 es)) par =
      us @ pre # rev [Suc ?n..<Suc ?n + length es] @ ?n # vs"
    and nw: "\<forall>j<length es. document (failed_attempts b ?s1 es) ! (Suc ?n + j) = error_element (es ! j)"
    and cl: "\<forall>m<Suc ?n. classList (document (failed_attempts b ?s1 es)) m = classList (document ?s1) m"
    and un: "\<forall>m<Suc ?n. m \<noteq> b \<and> m \<noteq> par \<longrightarrow>
       document (failed_attempts b ?s1 es) ! m = document ?s1 ! m"
    unfolding len1 by blast+
  have A: "length (document (failed_attempts b s (e # es))) = ?n + length (e # es)"
    using l by (simp add: failed_attempts_Cons)
  have B: "childNodes (document (failed_attempts b s (e # es))) par =
      us @ pre # rev [?n..<?n + length (e # es)] @ vs"
    using c rev_upt_shift [of ?n "length es" vs] by (simp add: failed_attempts_Cons)
  have C: "\<forall>j<length (e # es). document (failed_attempts b s (e # es)) ! (?n + j) =
       error_element ((e # es) ! j)"
  proof (intro allI impI)
    fix j assume j: "j < length (e # es)"
    show "document (failed_attempts b s (e # es)) ! (?n + j) = error_element ((e # es) ! j)"
    proof (cases j)
      case 0
      from un bl parl have "document (failed_attempts b ?s1 es) ! ?n = document ?s1 ! ?n"
        by simp
      with fx(2) 0 show ?thesis by (simp add: failed_attempts_Cons)
    next
      case (Suc k)
      with j nw show ?thesis by (simp add: failed_attempts_Cons)
    qed
  qed
  have D: "\<forall>m<?n. classList (document (failed_attempts b s (e # es))) m = classList (document s) m"
    using cl fx(4) by (simp add: failed_attempts_Cons)
  have E: "\<forall>m<?n. m \<noteq> b \<and> m \<noteq> par \<longrightarrow>
       document (failed_attempts b s (e # es)) ! m = document s ! m"
    using un fx(5) by (simp add: failed_attempts_Cons)
  from A B C D E show ?case by blast
qed

lemma error_outputs_count:
  assumes "\<forall>c\<in>set (us @ pre # vs). c < n"
    and "\<forall>m<n. classList d' m = classList d m"
    and "\<forall>j<k. ''mermaid-error'' \<in> set (classList d' (n + j))"
    and "childNodes d par = us @ pre # vs"
    and "childNodes d' par = us @ pre # rev [n..<n + k] @ vs"
  shows "length (error_outputs d' par) = length (error_outputs d par) + k"
proof -
  let ?P = "\<lambda>d m. ''mermaid-error'' \<in> set (classList d m)"
  from assms(1,2) have old: "filter (?P d') (us @ pre # vs) = filter (?P d) (us @ pre # vs)"
    by (intro filter_cong) auto
  have "\<forall>m\<in>set (rev [n..<n + k]). ?P d' m"
  proof
    fix m assume "m \<in> set (rev [n..<n + k])"
    then obtain j where "m = n + j" "j < k" by (auto simp: le_iff_add)
    with assms(3) show "?P d' m" by simp
  qed
  then have new: "filter (?P d') (rev [n..<n + k]) = rev [n..<n + k]" by (simp only: filter_True)
  have "length (error_outputs d' par) =
      length (filter (?P d') (us @ pre # vs)) + length (filter (?P d') (rev [n..<n + k]))"
    unfolding error_outputs_def assms(5) by simp
  also have "\<dots> = length (error_outputs d par) + k"
    unfolding old new error_outputs_def assms(4) by simp
  finally show ?thesis .
qed

text \<open>
  A call on a container with a single candidate, whose render fails, is one failed attempt
  on that candidate.
\<close>

lemma scan_skip_prefix:
  "\<forall>x\<in>set xs. \<not> candidate (document s) x \<Longrightarrow> scan s (xs @ L) = scan s L"
  by (induction xs) (simp_all add: loop_body_skip)

lemma settle_remaining:
  "settle s (p\<lparr>remaining := bs\<rparr>) out = settle s p out"
  by (cases out) (simp_all add: settle_def on_success_def on_failure_def Let_def)

lemma drive_single_candidate:
  assumes f: "filter (candidate (document s)) L = [b]"
    and al: "\<forall>x\<in>set L. x < length (document s)"
    and nr: "trim (textContent (document s) b) \<notin> renderingRef s"
    and rj: "r (diagram_id (Suc (mermaidIdCounter s))) (trim (textContent (document s) b)) =
        Rejected e"
  shows "drive r (scan s L) = failed_attempt b s e"
proof -
  let ?T = "trim (textContent (document s) b)"
  let ?i = "diagram_id (Suc (mermaidIdCounter s))"
  from f obtain xs ys where L: "L = xs @ b # ys"
    and xs: "\<forall>x\<in>set xs. \<not> candidate (document s) x"
    and c: "candidate (document s) b"
    and e0: "[] = filter (candidate (document s)) ys"
    by (auto simp: filter_eq_Cons_iff)
  from e0 have ys: "\<forall>y\<in>set ys. \<not> candidate (document s) y"
    using filter_empty_conv [of "candidate (document s)" ys] by auto
  from loop_body_render [OF c nr] obtain pre s1 where
    lb: "loop_body s b = (s1, Some (pre, ?T, ?i))"
    and s1: "s1 = s\<lparr>mermaidIdCounter := Suc (mermaidIdCounter s),
        renderingRef := insert ?T (renderingRef s),
        document := setAttribute (document s) b ''data-mermaid-processed'' ''true'',
        trace := trace s @ [RenderCall ?i ?T]\<rparr>"
    by blast
  define p where "p = \<lparr>codeBlock = b, preElement = pre, mermaidSource = ?T, diagramId = ?i,
      remaining = []\<rparr>"
  define s2 where "s2 = settle s1 p (Rejected e)"
  from s1 have d1: "document s1 = setAttribute (document s) b ''data-mermaid-processed'' ''true''"
    by simp
  have p': "\<lparr>codeBlock = b, preElement = pre, mermaidSource = ?T, diagramId = ?i,
      remaining = ys\<rparr> = p\<lparr>remaining := ys\<rparr>" by (simp add: p_def)
  have "drive r (scan s L) = drive r (scan s (b # ys))"
    unfolding L using xs by (simp only: scan_skip_prefix)
  also have "\<dots> = drive r (scan s2 ys)"
    using lb rj by (simp only: drive_scan_Cons) (simp add: p' settle_remaining s2_def)
  also have "scan s2 ys = (s2, None)"
  proof (rule scan_nothing, rule ballI)
    fix y assume y: "y \<in> set ys"
    with ys c have ne: "y \<noteq> b" by auto
    from y al L have "y < length (document s)" by simp
    with ne have "candidate (document s2) y = candidate (document s) y"
      by (simp add: s2_def settle_candidate d1 p_def candidate_setAttribute)
    with ys y show "\<not> candidate (document s2) y" by simp
  qed
  finally have "drive r (scan s L) = s2" by simp
  moreover from lb have "failed_attempt b s e = s2"
    by (simp add: failed_attempt_def resume_def p_def s2_def)
  ultimately show ?thesis by simp
qed

lemma map_upt_Suc_shift: "map f [0..<Suc n] = f 0 # map (\<lambda>j. f (Suc j)) [0..<n]"
  by (simp only: upt_conv_Cons [of 0 "Suc n"] map_Suc_upt [symmetric]) (simp add: comp_def)

text \<open>
  Calls made one after the other on a container with a single candidate, every render
  failing, are a run of failed attempts on that candidate, one per call, each with the next
  identifier.
\<close>

lemma passes_single_candidate:
  assumes "containerRef s = Some c" and "renderingRef s = {}"
    and "grown d0 (document s)" and "depth_within (length d0 - 1) d0 c" and "d0 \<noteq> []"
    and "filter (candidate (document s)) (querySelectorAll d0 c) = [b]"
    and "\<forall>i t. \<exists>e. r i t = Rejected e"
  shows "\<exists>es. length es = n \<and> passes r n s = failed_attempts b s es \<and>
    (\<forall>j<n. r (diagram_id (Suc (mermaidIdCounter s + j))) (trim (textContent (document s) b)) =
       Rejected (es ! j)) \<and>
    render_calls (trace (passes r n s)) =
      render_calls (trace s) @
        map (\<lambda>j. (diagram_id (Suc (mermaidIdCounter s + j)), trim (textContent (document s) b)))
          [0..<n]"
  using assms(1,2,3,6)
proof (induction n arbitrary: s)
  case 0
  have "passes r 0 s = failed_attempts b s []" by (simp add: failed_attempts_def)
  then show ?case by simp
next
  case (Suc n)
  let ?T = "trim (textContent (document s) b)"
  let ?k = "mermaidIdCounter s"
  let ?L = "querySelectorAll d0 c"
  from assms(7) obtain e where e: "r (diagram_id (Suc ?k)) ?T = Rejected e" by blast
  let ?s1 = "failed_attempt b s e"
  from Suc.prems(3) have le: "length d0 \<le> length (document s)" by (simp add: grown_def)
  have q: "querySelectorAll (document s) c = ?L"
    using Suc.prems(3) assms(4,5) by (rule querySelectorAll_grown)
  have al: "\<forall>x\<in>set ?L. x < length (document s)"
    using le querySelectorAll_allocated [of _ d0 c] by fastforce
  from Suc.prems(4) have "b \<in> set (filter (candidate (document s)) ?L)" by simp
  then have c: "candidate (document s) b" by simp
  from Suc.prems(2) have nr: "?T \<notin> renderingRef s" by simp
  have rp: "run_pass r s = ?s1"
    using Suc.prems(1) drive_single_candidate [of s ?L b r e, OF Suc.prems(4) al nr e]
    by (simp add: run_pass_def processMermaidBlocks_def q)
  note fr = failed_attempt_frame [OF c nr, of e]
  have c1: "containerRef ?s1 = Some c" using fr(1) Suc.prems(1) by simp
  have r1: "renderingRef ?s1 = {}" using fr(2) Suc.prems(2) by simp
  have g1: "grown d0 (document ?s1)" using Suc.prems(3) fr(4) by (rule grown_trans)
  have f1: "filter (candidate (document ?s1)) ?L = [b]"
  proof -
    have "candidate (document ?s1) x = candidate (document s) x" if "x \<in> set ?L" for x
    proof (cases "x = b")
      case True
      with fr(6) c show ?thesis by simp
    next
      case False
      with that al fr(8) show ?thesis by simp
    qed
    then have "filter (candidate (document ?s1)) ?L = filter (candidate (document s)) ?L"
      by (intro filter_cong) simp_all
    with Suc.prems(4) show ?thesis by simp
  qed
  from Suc.IH [OF c1 r1 g1 f1] obtain es where
    l: "length es = n" and ps: "passes r n ?s1 = failed_attempts b ?s1 es"
    and rs: "\<forall>j<n. r (diagram_id (Suc (mermaidIdCounter ?s1 + j)))
        (trim (textContent (document ?s1) b)) = Rejected (es ! j)"
    and rc: "render_calls (trace (passes r n ?s1)) =
      render_calls (trace ?s1) @
        map (\<lambda>j. (diagram_id (Suc (mermaidIdCounter ?s1 + j)),
                   trim (textContent (document ?s1) b))) [0..<n]"
    by blast
  have A: "length (e # es) = Suc n" using l by simp
  have B: "passes r (Suc n) s = failed_attempts b s (e # es)"
    using ps by (simp add: rp failed_attempts_Cons)
  have C: "\<forall>j<Suc n. r (diagram_id (Suc (?k + j))) ?T = Rejected ((e # es) ! j)"
  proof (intro allI impI)
    fix j assume "j < Suc n"
    show "r (diagram_id (Suc (?k + j))) ?T = Rejected ((e # es) ! j)"
    proof (cases j)
      case 0
      with e show ?thesis by simp
    next
      case (Suc j')
      with \<open>j < Suc n\<close> rs show ?thesis by (simp add: fr(3) fr(7))
    qed
  qed
  have D: "render_calls (trace (passes r (Suc n) s)) =
      render_calls (trace s) @
        map (\<lambda>j. (diagram_id (Suc (?k + j)), ?T)) [0..<Suc n]"
    unfolding map_upt_Suc_shift using rc by (simp add: rp fr(3) fr(5) fr(7))
  from A B C D show ?case by blast
qed


text \<open>Neither a call nor a settlement takes an Error Output out of a child list.\<close>

lemma error_outputs_kept:
  assumes "m < length (document t)"
  shows "set (error_outputs (document t) m) \<subseteq>
     set (error_outputs (document (fst (resume t q out))) m)"
proof
  fix x assume "x \<in> set (error_outputs (document t) m)"
  then have x: "x \<in> set (childNodes (document t) m)"
    and e: "''mermaid-error'' \<in> set (classList (document t) x)"
    by (simp_all add: error_outputs_def)
  from e have "x < length (document t)" by (auto simp: classList_def split: if_splits)
  from resume_keeps [OF this, of q out] e
  have "''mermaid-error'' \<in> set (classList (document (fst (resume t q out))) x)" by blast
  moreover from resume_keeps [OF assms, of q out] x
  have "x \<in> set (childNodes (document (fst (resume t q out))) m)" by blast
  ultimately show "x \<in> set (error_outputs (document (fst (resume t q out))) m)"
    by (simp add: error_outputs_def)
qed

lemma processMermaidBlocks_error_outputs:
  "error_outputs (document (fst (processMermaidBlocks t))) m = error_outputs (document t) m"
proof (cases "containerRef t")
  case None
  then show ?thesis by (simp add: processMermaidBlocks_def)
next
  case (Some c)
  obtain t' po where sc: "scan t (querySelectorAll (document t) c) = (t', po)"
    by (cases "scan t (querySelectorAll (document t) c)")
  from scan_keeps [OF sc] have "childNodes (document t') m = childNodes (document t) m"
    and "\<And>x. classList (document t') x = classList (document t) x" by simp_all
  then have "error_outputs (document t') m = error_outputs (document t) m"
    by (simp add: error_outputs_def)
  with Some sc show ?thesis by (simp add: processMermaidBlocks_def)
qed

text \<open>A failed render whose \<open>PRE\<close> element has a parent gives that parent one more Error Output.\<close>

lemma on_failure_error_outputs:
  assumes pp: "parentElement d (preElement q) = Some par"
    and al: "\<forall>x\<in>set (childNodes d par). x < length d"
  shows "length (error_outputs (on_failure d q e) par) = Suc (length (error_outputs d par))"
proof -
  let ?d' = "on_failure d q e"
  from pp have par: "par < length d" and mem: "preElement q \<in> set (children (d ! par))"
    by (simp_all add: parentElement_Some)
  from split_list_first [OF mem] obtain us vs where
    ch: "children (d ! par) = us @ preElement q # vs" and nu: "preElement q \<notin> set us" by blast
  from par ch have c0: "childNodes d par = us @ preElement q # vs" by (simp add: childNodes_def)
  have "children (?d' ! par) = us @ preElement q # length d # vs"
    using par pp ch nu by (simp add: on_failure_children insert_after_append)
  with par have c1: "childNodes ?d' par = us @ preElement q # rev [length d..<length d + 1] @ vs"
    by (simp add: childNodes_def on_failure_length)
  have cl: "\<forall>m<length d. classList ?d' m = classList d m"
    using on_failure_fields [of _ d q e] by (simp add: classList_def on_failure_length)
  have nw: "\<forall>j<1. ''mermaid-error'' \<in> set (classList ?d' (length d + j))"
    by (simp add: classList_def on_failure_length on_failure_new)
  from al c0 have old: "\<forall>c\<in>set (us @ preElement q # vs). c < length d" by simp
  from error_outputs_count [OF old cl nw c0 c1] show ?thesis by simp
qed

lemma element_remove_length [simp]: "length (element_remove d n) = length d"
  by (simp add: element_remove_def split: option.splits)

lemma retry_detached_facts:
  "snd (processMermaidBlocks (run_pass bad_syntax (page one_block))) = Some one_block_retry \<and>
   snd (resume retry_detached one_block_retry (Rejected (ErrorObject ''bad syntax''))) = None"
  by code_simp

lemma reachable_retry_detached:
  "reachable (fst (resume retry_detached one_block_retry (Rejected (ErrorObject ''bad syntax''))), [])"
proof -
  let ?s1 = "run_pass bad_syntax (page one_block)"
  let ?out = "Rejected (ErrorObject ''bad syntax'')"
  obtain s2 po where c2: "processMermaidBlocks ?s1 = (s2, po)"
    by (cases "processMermaidBlocks ?s1")
  with retry_detached_facts have po: "po = Some one_block_retry" by simp
  obtain s3 po3 where c3: "resume retry_detached one_block_retry ?out = (s3, po3)"
    by (cases "resume retry_detached one_block_retry ?out")
  with retry_detached_facts have po3: "po3 = None" by simp
  have rd: "retry_detached = s2\<lparr>document := element_remove (document s2) 1\<rparr>"
    using c2 by (simp add: retry_detached_def Let_def)
  have "reachable (page one_block, [])" by (rule reachable.initial) (simp_all add: page_def)
  then have "reachable (?s1, [])" by (rule run_pass_reachable)
  then have "reachable (s2, [] @ pending po)" using step.invoke [OF c2] by (rule reachable.after)
  then have "reachable (s2, [one_block_retry])" by (simp add: po pending_def)
  moreover have "step (s2, [one_block_retry]) (retry_detached, [one_block_retry])"
    unfolding rd by (rule step.mutated) simp
  ultimately have "reachable (retry_detached, [one_block_retry])" by (rule reachable.after)
  moreover have "step (retry_detached, [one_block_retry])
      (s3, take 0 [one_block_retry] @ pending po3 @ drop (Suc 0) [one_block_retry])"
    using step.settled [of 0 "[one_block_retry]" retry_detached ?out s3 po3] c3 by simp
  ultimately have "reachable (s3, take 0 [one_block_retry] @ pending po3 @
      drop (Suc 0) [one_block_retry])" by (rule reachable.after)
  with c3 po3 show ?thesis by (simp add: pending_def)
qed

text \<open>
  C8 as stated fails. On the page with one block a first call fails and inserts an Error
  Output after the \<open>PRE\<close> element. A second call finds the block unprocessed and calls the
  renderer again; while it is suspended the host removes the \<open>PRE\<close> element from the
  container; then this render fails too. A second Error Output is created, but it is the
  child of no element: after two failed attempts on the block the container has one Error
  Output.
\<close>

theorem detached_retry_counterexample:
  "reachable
     (fst (resume retry_detached one_block_retry (Rejected (ErrorObject ''bad syntax''))), []) \<and>
   trace (fst (resume retry_detached one_block_retry (Rejected (ErrorObject ''bad syntax'')))) =
     [RenderCall ''mermaid-diagram-1'' ''flowchart TB; A-->B'',
      RenderSettled ''mermaid-diagram-1'' (Rejected (ErrorObject ''bad syntax'')),
      ConsoleError (ErrorObject ''bad syntax''),
      RenderCall ''mermaid-diagram-2'' ''flowchart TB; A-->B'',
      RenderSettled ''mermaid-diagram-2'' (Rejected (ErrorObject ''bad syntax'')),
      ConsoleError (ErrorObject ''bad syntax'')] \<and>
   map (classList (document (fst (resume retry_detached one_block_retry
       (Rejected (ErrorObject ''bad syntax'')))))) [3, 4] =
     [[''mermaid-error''], [''mermaid-error'']] \<and>
   map (childNodes (document (fst (resume retry_detached one_block_retry
       (Rejected (ErrorObject ''bad syntax'')))))) [0, 1, 2, 3, 4] = [[3], [2], [], [], []] \<and>
   error_outputs (document (fst (resume retry_detached one_block_retry
       (Rejected (ErrorObject ''bad syntax''))))) 0 = [3]"
proof -
  have "trace (fst (resume retry_detached one_block_retry (Rejected (ErrorObject ''bad syntax'')))) =
     [RenderCall ''mermaid-diagram-1'' ''flowchart TB; A-->B'',
      RenderSettled ''mermaid-diagram-1'' (Rejected (ErrorObject ''bad syntax'')),
      ConsoleError (ErrorObject ''bad syntax''),
      RenderCall ''mermaid-diagram-2'' ''flowchart TB; A-->B'',
      RenderSettled ''mermaid-diagram-2'' (Rejected (ErrorObject ''bad syntax'')),
      ConsoleError (ErrorObject ''bad syntax'')] \<and>
   map (classList (document (fst (resume retry_detached one_block_retry
       (Rejected (ErrorObject ''bad syntax'')))))) [3, 4] =
     [[''mermaid-error''], [''mermaid-error'']] \<and>
   map (childNodes (document (fst (resume retry_detached one_block_retry
       (Rejected (ErrorObject ''bad syntax'')))))) [0, 1, 2, 3, 4] = [[3], [2], [], [], []] \<and>
   error_outputs (document (fst (resume retry_detached one_block_retry
       (Rejected (ErrorObject ''bad syntax''))))) 0 = [3]"
    by code_simp
  with reachable_retry_detached show ?thesis by simp
qed

text \<open>
  C8, as amended. A failed render of a suspended call of a reachable system, when the
  \<open>PRE\<close> element has a parent at that time (whose children are elements of the document),
  gives that parent one more Error Output; no resumption of a call, whatever the outcome
  of its render, takes an Error Output out of a child list, and the start of a call
  changes no list of Error Outputs.

  Retries: take a bound container that the search explores in full and in which block
  \<open>b\<close> is the only candidate, inside a \<open>PRE\<close> element that has a parent, and let \<open>n\<close>
  calls of \<open>processMermaidBlocks\<close> run one after the other, starting with an empty
  Rendering Set and with every render failing. Each call makes one render call for the
  block, with the next identifier, and creates one element, the Error Output for the
  rejection of that render. The child list of the parent of the \<open>PRE\<close> element is the
  original one with the \<open>n\<close> new elements, latest first, right after the \<open>PRE\<close> element,
  and the parent has \<open>n\<close> more Error Outputs than before.
\<close>

theorem error_outputs_accumulate:
  assumes "containerRef s = Some c" and "renderingRef s = {}"
    and "depth_within (length (document s) - 1) (document s) c"
    and "filter (candidate (document s)) (querySelectorAll (document s) c) = [b]"
    and "parentElement (document s) b = Some pre"
    and "parentElement (document s) pre = Some par"
    and "\<forall>x\<in>set (childNodes (document s) par). x < length (document s)"
    and "\<forall>i t. \<exists>e. r i t = Rejected e"
  shows "length (document (passes r n s)) = length (document s) + n \<and>
    (\<exists>us vs. childNodes (document s) par = us @ pre # vs \<and> pre \<notin> set us \<and>
       childNodes (document (passes r n s)) par =
         us @ pre # rev [length (document s)..<length (document s) + n] @ vs) \<and>
    (\<forall>j<n. \<forall>e.
       r (diagram_id (Suc (mermaidIdCounter s + j))) (trim (textContent (document s) b)) =
         Rejected e \<longrightarrow>
       document (passes r n s) ! (length (document s) + j) = error_element e) \<and>
    length (error_outputs (document (passes r n s)) par) =
      length (error_outputs (document s) par) + n \<and>
    render_calls (trace (passes r n s)) =
      render_calls (trace s) @
        map (\<lambda>j. (diagram_id (Suc (mermaidIdCounter s + j)), trim (textContent (document s) b)))
          [0..<n] \<and>
    (\<forall>qs q e' par'. reachable (t, qs) \<and> q \<in> set qs \<and>
       parentElement (document t) (preElement q) = Some par' \<and>
       (\<forall>x\<in>set (childNodes (document t) par'). x < length (document t)) \<longrightarrow>
       length (error_outputs (document (settle t q (Rejected e'))) par') =
         Suc (length (error_outputs (document t) par'))) \<and>
    (\<forall>q out m. m < length (document t) \<longrightarrow>
       set (error_outputs (document t) m) \<subseteq>
         set (error_outputs (document (fst (resume t q out))) m)) \<and>
    (\<forall>m. error_outputs (document (fst (processMermaidBlocks t))) m =
       error_outputs (document t) m)"
proof -
  let ?d = "document s" and ?d' = "document (passes r n s)"
  let ?L = "querySelectorAll ?d c"
  from assms(4) have "b \<in> set (filter (candidate ?d) ?L)" by simp
  then have c: "candidate ?d b" by simp
  then have "b < length ?d" by (rule candidate_length)
  then have ne: "?d \<noteq> []" by auto
  from assms(2) have nr: "trim (textContent ?d b) \<notin> renderingRef s" by simp
  from passes_single_candidate [OF assms(1,2) grown_refl assms(3) ne assms(4,8), of n]
  obtain es where l: "length es = n" and ps: "passes r n s = failed_attempts b s es"
    and rs: "\<forall>j<n. r (diagram_id (Suc (mermaidIdCounter s + j))) (trim (textContent ?d b)) =
       Rejected (es ! j)"
    and rc: "render_calls (trace (passes r n s)) =
      render_calls (trace s) @
        map (\<lambda>j. (diagram_id (Suc (mermaidIdCounter s + j)), trim (textContent ?d b))) [0..<n]"
    by blast
  from assms(6) have par: "par < length ?d" and mem: "pre \<in> set (children (?d ! par))"
    by (simp_all add: parentElement_Some)
  from split_list_first [OF mem] obtain us vs where
    ch0: "children (?d ! par) = us @ pre # vs" and nu: "pre \<notin> set us" by blast
  from par ch0 have ch: "childNodes ?d par = us @ pre # vs" by (simp add: childNodes_def)
  from failed_attempts_effect [OF c assms(5,6) nr ch nu, of es]
  have len: "length ?d' = length ?d + n"
    and ch': "childNodes ?d' par = us @ pre # rev [length ?d..<length ?d + n] @ vs"
    and nw: "\<forall>j<n. ?d' ! (length ?d + j) = error_element (es ! j)"
    and cl: "\<forall>m<length ?d. classList ?d' m = classList ?d m"
    unfolding ps [symmetric] l by blast+
  have elems: "\<forall>j<n. \<forall>e.
       r (diagram_id (Suc (mermaidIdCounter s + j))) (trim (textContent ?d b)) = Rejected e \<longrightarrow>
       ?d' ! (length ?d + j) = error_element e"
    using rs nw by auto
  have "\<forall>j<n. ''mermaid-error'' \<in> set (classList ?d' (length ?d + j))"
    using nw len by (simp add: classList_def error_element_def)
  with assms(7) ch cl ch'
  have cnt: "length (error_outputs ?d' par) = length (error_outputs ?d par) + n"
    by (intro error_outputs_count [where us = us and pre = pre and vs = vs and n = "length ?d"])
      simp_all
  have one: "\<forall>qs q e' par'. reachable (t, qs) \<and> q \<in> set qs \<and>
       parentElement (document t) (preElement q) = Some par' \<and>
       (\<forall>x\<in>set (childNodes (document t) par'). x < length (document t)) \<longrightarrow>
       length (error_outputs (document (settle t q (Rejected e'))) par') =
         Suc (length (error_outputs (document t) par'))"
    by (simp add: settle_document on_failure_error_outputs)
  have keep: "\<forall>q out m. m < length (document t) \<longrightarrow>
       set (error_outputs (document t) m) \<subseteq>
         set (error_outputs (document (fst (resume t q out))) m)"
    using error_outputs_kept by blast
  from ch nu ch' have split: "\<exists>us vs. childNodes ?d par = us @ pre # vs \<and> pre \<notin> set us \<and>
       childNodes ?d' par = us @ pre # rev [length ?d..<length ?d + n] @ vs" by blast
  have start: "\<forall>m. error_outputs (document (fst (processMermaidBlocks t))) m =
       error_outputs (document t) m"
    using processMermaidBlocks_error_outputs by blast
  from len split elems cnt rc one keep start show ?thesis by blast
qed

lemma one_block_page:
  "containerRef (page one_block) = Some 0 \<and>
   renderingRef (page one_block) = {} \<and>
   depth_within (length (document (page one_block)) - 1) (document (page one_block)) 0 \<and>
   filter (candidate (document (page one_block)))
     (querySelectorAll (document (page one_block)) 0) = [2] \<and>
   parentElement (document (page one_block)) 2 = Some 1 \<and>
   parentElement (document (page one_block)) 1 = Some 0 \<and>
   (\<forall>x\<in>set (childNodes (document (page one_block)) 0). x < length (document (page one_block))) \<and>
   length (document (page one_block)) = 3 \<and>
   mermaidIdCounter (page one_block) = 0 \<and>
   trim (textContent (document (page one_block)) 2) = ''flowchart TB; A-->B'' \<and>
   render_calls (trace (page one_block)) = [] \<and>
   error_outputs (document (page one_block)) 0 = [] \<and>
   childNodes (document (passes bad_syntax 3 (page one_block))) 0 = [1, 5, 4, 3]"
  by code_simp

theorem error_outputs_accumulate_witness:
  "containerRef (page one_block) = Some 0 \<and>
   renderingRef (page one_block) = {} \<and>
   depth_within (length (document (page one_block)) - 1) (document (page one_block)) 0 \<and>
   filter (candidate (document (page one_block)))
     (querySelectorAll (document (page one_block)) 0) = [2] \<and>
   parentElement (document (page one_block)) 2 = Some 1 \<and>
   parentElement (document (page one_block)) 1 = Some 0 \<and>
   length (document (passes bad_syntax 3 (page one_block))) = 6 \<and>
   childNodes (document (passes bad_syntax 3 (page one_block))) 0 = [1, 5, 4, 3] \<and>
   document (passes bad_syntax 3 (page one_block)) ! 5 = error_element (ErrorObject ''bad syntax'') \<and>
   length (error_outputs (document (passes bad_syntax 3 (page one_block))) 0) = 3 \<and>
   render_calls (trace (passes bad_syntax 3 (page one_block))) =
     [(''mermaid-diagram-1'', ''flowchart TB; A-->B''),
      (''mermaid-diagram-2'', ''flowchart TB; A-->B''),
      (''mermaid-diagram-3'', ''flowchart TB; A-->B'')]"
proof -
  note f = one_block_page
  from f have h: "containerRef (page one_block) = Some 0"
    "renderingRef (page one_block) = {}"
    "depth_within (length (document (page one_block)) - 1) (document (page one_block)) 0"
    "filter (candidate (document (page one_block)))
       (querySelectorAll (document (page one_block)) 0) = [2]"
    "parentElement (document (page one_block)) 2 = Some 1"
    "parentElement (document (page one_block)) 1 = Some 0"
    "\<forall>x\<in>set (childNodes (document (page one_block)) 0). x < length (document (page one_block))"
    by blast+
  have h8: "\<forall>i t. \<exists>e. bad_syntax i t = Rejected e" by (simp add: bad_syntax_def)
  from f have len: "length (document (page one_block)) = 3"
    and k: "mermaidIdCounter (page one_block) = 0"
    and T: "trim (textContent (document (page one_block)) 2) = ''flowchart TB; A-->B''"
    and rc: "render_calls (trace (page one_block)) = []"
    and none: "error_outputs (document (page one_block)) 0 = []"
    and ch: "childNodes (document (passes bad_syntax 3 (page one_block))) 0 = [1, 5, 4, 3]"
    by blast+
  have ids: "map (\<lambda>j. (diagram_id (Suc (0 + j)), ''flowchart TB; A-->B'')) [0..<3] =
     [(''mermaid-diagram-1'', ''flowchart TB; A-->B''),
      (''mermaid-diagram-2'', ''flowchart TB; A-->B''),
      (''mermaid-diagram-3'', ''flowchart TB; A-->B'')]"
    by code_simp
  have bs: "bad_syntax (diagram_id (Suc (0 + 2))) ''flowchart TB; A-->B'' =
      Rejected (ErrorObject ''bad syntax'')" by (simp add: bad_syntax_def)
  note t = error_outputs_accumulate [OF h h8, of 3, unfolded len k T rc none]
  from t have "length (document (passes bad_syntax 3 (page one_block))) = 3 + 3"
    and "length (error_outputs (document (passes bad_syntax 3 (page one_block))) 0) =
      length ([] :: nat list) + 3"
    and "render_calls (trace (passes bad_syntax 3 (page one_block))) =
      [] @ map (\<lambda>j. (diagram_id (Suc (0 + j)), ''flowchart TB; A-->B'')) [0..<3]"
    by blast+
  then have r1: "length (document (passes bad_syntax 3 (page one_block))) = 6"
    and r2: "length (error_outputs (document (passes bad_syntax 3 (page one_block))) 0) = 3"
    and r3: "render_calls (trace (passes bad_syntax 3 (page one_block))) =
     [(''mermaid-diagram-1'', ''flowchart TB; A-->B''),
      (''mermaid-diagram-2'', ''flowchart TB; A-->B''),
      (''mermaid-diagram-3'', ''flowchart TB; A-->B'')]"
    unfolding ids by simp_all
  from t bs
  have "document (passes bad_syntax 3 (page one_block)) ! (3 + 2) =
      error_element (ErrorObject ''bad syntax'')"
    by (metis lessI numeral_2_eq_2 numeral_3_eq_3)
  then have r4: "document (passes bad_syntax 3 (page one_block)) ! 5 =
      error_element (ErrorObject ''bad syntax'')" by simp
  from f r1 r2 r3 r4 show ?thesis by blast
qed


section \<open>Absent container\<close>

text \<open>
  C9. When the container ref is not bound, a call of \<open>processMermaidBlocks\<close> returns at
  once: the state (document, Rendering Set, identifier counter, trace of renderer calls) is
  unchanged and the call does not suspend.
\<close>

theorem absent_container_noop:
  "containerRef s = None \<Longrightarrow> processMermaidBlocks s = (s, None) \<and> run_pass render s = s"
  by (simp add: processMermaidBlocks_def run_pass_def)

theorem absent_container_noop_witness:
  "containerRef ((page one_block)\<lparr>containerRef := None\<rparr>) = None \<and>
   processMermaidBlocks ((page one_block)\<lparr>containerRef := None\<rparr>) =
     ((page one_block)\<lparr>containerRef := None\<rparr>, None) \<and>
   run_pass (\<lambda>i t. Resolved svg_ok) ((page one_block)\<lparr>containerRef := None\<rparr>) =
     (page one_block)\<lparr>containerRef := None\<rparr>"
  using absent_container_noop [of "(page one_block)\<lparr>containerRef := None\<rparr>"
      "\<lambda>i t. Resolved svg_ok"]
  by simp


section \<open>Two blocks with the same text\<close>

text \<open>
  C1 as stated fails: on a page with two blocks of the same text, one call on its own makes
  two render calls for that text, and the second block ends up marked processed.
\<close>

theorem identical_blocks_counterexample:
  "render_calls (trace (run_pass (\<lambda>i t. Resolved svg_ok) (page two_identical_blocks))) =
     [(''mermaid-diagram-1'', ''graph TD; A-->B''), (''mermaid-diagram-2'', ''graph TD; A-->B'')] \<and>
   hasAttribute
     (document (run_pass (\<lambda>i t. Resolved svg_ok) (page two_identical_blocks))) 4
     ''data-mermaid-processed''"
  by code_simp

text \<open>
  C1, as amended. Take a call that starts with an empty Rendering Set, on a container whose
  code blocks are found once each, and that runs on its own: each of its renders settles
  and the call resumes before any other call starts and before the host changes the
  document. Such a run is one of the runs of the system. The call makes one render call for
  every candidate block, in the order of the blocks and with consecutive identifiers,
  whatever the texts are: two blocks of the same text get a render call each. The Rendering
  Set check decides on the text alone: a candidate whose text is in the set, which is while
  another call renders that text, is skipped with an identifier consumed and without being
  marked processed; a candidate whose text is not in the set is marked processed and
  rendered.
\<close>

theorem identical_blocks_each_rendered:
  assumes "containerRef s = Some c" and "distinct (querySelectorAll (document s) c)"
    and "renderingRef s = {}"
  shows "render_calls (trace (run_pass r s)) =
     render_calls (trace s) @
       zip (map diagram_id [Suc (mermaidIdCounter s)..<
              Suc (mermaidIdCounter s) +
                length (filter (candidate (document s)) (querySelectorAll (document s) c))])
           (map (\<lambda>b. trim (textContent (document s) b))
              (filter (candidate (document s)) (querySelectorAll (document s) c))) \<and>
    (reachable (s, []) \<longrightarrow> reachable (run_pass r s, [])) \<and>
    (candidate (document t) b \<and> trim (textContent (document t) b) \<in> renderingRef t \<longrightarrow>
       loop_body t b = (t\<lparr>mermaidIdCounter := Suc (mermaidIdCounter t)\<rparr>, None)) \<and>
    (candidate (document t) b \<and> trim (textContent (document t) b) \<notin> renderingRef t \<longrightarrow>
       map_option (fst \<circ> snd) (snd (loop_body t b)) = Some (trim (textContent (document t) b)) \<and>
       hasAttribute (document (fst (loop_body t b))) b ''data-mermaid-processed'')"
proof -
  have "map_option (fst \<circ> snd) (snd (loop_body t b)) = Some (trim (textContent (document t) b)) \<and>
       hasAttribute (document (fst (loop_body t b))) b ''data-mermaid-processed''"
    if c: "candidate (document t) b" and n: "trim (textContent (document t) b) \<notin> renderingRef t"
  proof -
    from c have "b < length (document t)" by (rule candidate_length)
    with loop_body_render [OF c n] show ?thesis
      by (auto simp: hasAttribute_setAttribute)
  qed
  with run_pass_calls [OF assms, of r] loop_body_deferred [of t b] run_pass_reachable [of s r]
  show ?thesis by blast
qed

lemma two_identical_page:
  "containerRef (page two_identical_blocks) = Some 0 \<and>
   distinct (querySelectorAll (document (page two_identical_blocks)) 0) \<and>
   renderingRef (page two_identical_blocks) = {} \<and>
   render_calls (trace (page two_identical_blocks)) = [] \<and>
   zip (map diagram_id [Suc (mermaidIdCounter (page two_identical_blocks))..<
              Suc (mermaidIdCounter (page two_identical_blocks)) +
                length (filter (candidate (document (page two_identical_blocks)))
                  (querySelectorAll (document (page two_identical_blocks)) 0))])
           (map (\<lambda>b. trim (textContent (document (page two_identical_blocks)) b))
              (filter (candidate (document (page two_identical_blocks)))
                (querySelectorAll (document (page two_identical_blocks)) 0))) =
     [(''mermaid-diagram-1'', ''graph TD; A-->B''), (''mermaid-diagram-2'', ''graph TD; A-->B'')]"
  by code_simp

theorem identical_blocks_each_rendered_witness:
  "containerRef (page two_identical_blocks) = Some 0 \<and>
   distinct (querySelectorAll (document (page two_identical_blocks)) 0) \<and>
   renderingRef (page two_identical_blocks) = {} \<and>
   reachable (page two_identical_blocks, []) \<and>
   reachable (run_pass (\<lambda>i t. Rejected OtherValue) (page two_identical_blocks), []) \<and>
   render_calls (trace (run_pass (\<lambda>i t. Rejected OtherValue) (page two_identical_blocks))) =
     [(''mermaid-diagram-1'', ''graph TD; A-->B''), (''mermaid-diagram-2'', ''graph TD; A-->B'')]"
proof -
  note f = two_identical_page
  from f have h: "containerRef (page two_identical_blocks) = Some 0"
    "distinct (querySelectorAll (document (page two_identical_blocks)) 0)"
    "renderingRef (page two_identical_blocks) = {}" by blast+
  have r0: "reachable (page two_identical_blocks, [])"
    by (rule reachable.initial) (simp_all add: page_def)
  from identical_blocks_each_rendered [OF h, of "\<lambda>i t. Rejected OtherValue"] f r0
  show ?thesis by simp
qed


section \<open>The order of renders in one call\<close>

text \<open>
  C2 as stated fails: on a page with two blocks of different texts, the first call
  suspends with only the first render called and the second block still to visit; the
  render of the second block is called in the resumption, after the first has settled.
\<close>

theorem concurrent_dispatch_counterexample:
  "trace (fst (processMermaidBlocks (page two_different_blocks))) =
     [RenderCall ''mermaid-diagram-1'' ''graph TD; A-->B''] \<and>
   snd (processMermaidBlocks (page two_different_blocks)) = Some two_blocks_awaiting \<and>
   remaining two_blocks_awaiting = [4] \<and>
   trace (fst (resume (first_call two_different_blocks) two_blocks_awaiting
       (Resolved svg_ok))) =
     [RenderCall ''mermaid-diagram-1'' ''graph TD; A-->B'',
      RenderSettled ''mermaid-diagram-1'' (Resolved svg_ok),
      RenderCall ''mermaid-diagram-2'' ''graph LR; C-->D'']"
  by code_simp

text \<open>
  C2, as amended. A scan adds at most one event to the trace, the render call at which it
  suspends; the blocks after that one are not visited. A resumption adds the settlement of
  that render first and then at most the render call of the next suspension. So whatever
  the state and whatever the renders do, the events that one call adds to the trace
  alternate: a render is called only when none of this call is in flight, and the next
  event of the renderer is its settlement; the render of a later block is called only
  after the render of the earlier block has settled. When the call starts with an empty
  Rendering Set on a container whose code blocks are found once each, the texts of the
  calls are those of the candidate blocks in document order.
\<close>

theorem renders_one_at_a_time:
  "(case scan t bs of
      (t', po) \<Rightarrow>
        trace t' = trace t @
          (case po of None \<Rightarrow> [] | Some p \<Rightarrow> [RenderCall (diagramId p) (mermaidSource p)])) \<and>
   (case resume t q out of
      (t', po) \<Rightarrow>
        trace t' = trace t @ RenderSettled (diagramId q) out #
          (case out of Resolved svg \<Rightarrow> [] | Rejected e \<Rightarrow> [ConsoleError e]) @
          (case po of None \<Rightarrow> [] | Some p \<Rightarrow> [RenderCall (diagramId p) (mermaidSource p)])) \<and>
   (\<exists>es. trace (run_pass r s) = trace s @ es \<and> sequential None es) \<and>
   (containerRef s = Some c \<and> distinct (querySelectorAll (document s) c) \<and>
    renderingRef s = {} \<longrightarrow>
      map snd (drop (length (render_calls (trace s))) (render_calls (trace (run_pass r s)))) =
        map (\<lambda>b. trim (textContent (document s) b))
          (filter (candidate (document s)) (querySelectorAll (document s) c)))"
proof (intro conjI)
  obtain t' po where sc: "scan t bs = (t', po)" by (cases "scan t bs")
  from scan_trace [OF sc] sc
  show "case scan t bs of
      (t', po) \<Rightarrow>
        trace t' = trace t @
          (case po of None \<Rightarrow> [] | Some p \<Rightarrow> [RenderCall (diagramId p) (mermaidSource p)])"
    by (cases po) simp_all
next
  obtain t' po where rs: "resume t q out = (t', po)" by (cases "resume t q out")
  then have sc: "scan (settle t q out) (remaining q) = (t', po)" by (simp add: resume_def)
  from scan_trace [OF sc] rs
  show "case resume t q out of
      (t', po) \<Rightarrow>
        trace t' = trace t @ RenderSettled (diagramId q) out #
          (case out of Resolved svg \<Rightarrow> [] | Rejected e \<Rightarrow> [ConsoleError e]) @
          (case po of None \<Rightarrow> [] | Some p \<Rightarrow> [RenderCall (diagramId p) (mermaidSource p)])"
    by (cases po) (simp_all add: settle_trace)
next
  obtain s' po where p: "processMermaidBlocks s = (s', po)" by (cases "processMermaidBlocks s")
  then have sc: "(containerRef s = None \<and> s' = s \<and> po = None) \<or>
      (\<exists>c. scan s (querySelectorAll (document s) c) = (s', po))"
    by (auto simp: processMermaidBlocks_def split: option.splits)
  from drive_sequential [of r s' po] obtain es where
    es: "trace (drive r (s', po)) = trace s' @ es" "sequential (map_option diagramId po) es"
    by blast
  show "\<exists>es. trace (run_pass r s) = trace s @ es \<and> sequential None es"
  proof (cases po)
    case None
    with sc have "trace s' = trace s" using scan_trace [of s _ s' po] by auto
    with es None p show ?thesis by (auto simp: run_pass_def)
  next
    case (Some q)
    with sc obtain c where "scan s (querySelectorAll (document s) c) = (s', Some q)" by auto
    from scan_trace [OF this]
    have "trace s' = trace s @ [RenderCall (diagramId q) (mermaidSource q)]" by simp
    with es Some have "trace (drive r (s', po)) =
        trace s @ RenderCall (diagramId q) (mermaidSource q) # es"
      and "sequential None (RenderCall (diagramId q) (mermaidSource q) # es)" by simp_all
    with p show ?thesis by (auto simp: run_pass_def)
  qed
next
  show "containerRef s = Some c \<and> distinct (querySelectorAll (document s) c) \<and>
    renderingRef s = {} \<longrightarrow>
      map snd (drop (length (render_calls (trace s))) (render_calls (trace (run_pass r s)))) =
        map (\<lambda>b. trim (textContent (document s) b))
          (filter (candidate (document s)) (querySelectorAll (document s) c))"
  proof
    assume a: "containerRef s = Some c \<and> distinct (querySelectorAll (document s) c) \<and>
      renderingRef s = {}"
    then have "render_calls (trace (run_pass r s)) =
       render_calls (trace s) @
       zip (map diagram_id [Suc (mermaidIdCounter s)..<
              Suc (mermaidIdCounter s) +
                length (filter (candidate (document s)) (querySelectorAll (document s) c))])
           (map (\<lambda>b. trim (textContent (document s) b))
              (filter (candidate (document s)) (querySelectorAll (document s) c)))"
      by (intro run_pass_calls) simp_all
    then show "map snd (drop (length (render_calls (trace s))) (render_calls (trace (run_pass r s)))) =
        map (\<lambda>b. trim (textContent (document s) b))
          (filter (candidate (document s)) (querySelectorAll (document s) c))"
      by (simp del: upt_Suc add: map_snd_zip)
  qed
qed

lemma two_different_page:
  "containerRef (page two_different_blocks) = Some 0 \<and>
   distinct (querySelectorAll (document (page two_different_blocks)) 0) \<and>
   renderingRef (page two_different_blocks) = {} \<and>
   length (render_calls (trace (page two_different_blocks))) = 0 \<and>
   map (\<lambda>b. trim (textContent (document (page two_different_blocks)) b))
     (filter (candidate (document (page two_different_blocks)))
        (querySelectorAll (document (page two_different_blocks)) 0)) =
     [''graph TD; A-->B'', ''graph LR; C-->D'']"
  by code_simp

theorem renders_one_at_a_time_witness:
  "containerRef (page two_different_blocks) = Some 0 \<and>
   distinct (querySelectorAll (document (page two_different_blocks)) 0) \<and>
   renderingRef (page two_different_blocks) = {} \<and>
   map snd (render_calls (trace (run_pass (\<lambda>i t. Rejected OtherValue) (page two_different_blocks)))) =
     [''graph TD; A-->B'', ''graph LR; C-->D''] \<and>
   (\<exists>es. trace (run_pass (\<lambda>i t. Rejected OtherValue) (page two_different_blocks)) =
      trace (page two_different_blocks) @ es \<and> sequential None es)"
proof -
  note f = two_different_page
  from renders_one_at_a_time [where r = "\<lambda>i t. Rejected OtherValue"
      and s = "page two_different_blocks" and c = 0] f
  show ?thesis by simp
qed


section \<open>What a second call finds\<close>

text \<open>
  C6 as stated fails: after a call whose render was rejected, a second call right away
  finds the block unprocessed, calls the renderer again and, the render failing again,
  inserts a second Error Output.
\<close>

theorem idempotence_counterexample:
  "render_calls (trace (run_pass (\<lambda>i t. Rejected (ErrorObject ''bad syntax'')) (page one_block))) =
     [(''mermaid-diagram-1'', ''flowchart TB; A-->B'')] \<and>
   render_calls (trace (run_pass (\<lambda>i t. Rejected (ErrorObject ''bad syntax''))
     (run_pass (\<lambda>i t. Rejected (ErrorObject ''bad syntax'')) (page one_block)))) =
     [(''mermaid-diagram-1'', ''flowchart TB; A-->B''),
      (''mermaid-diagram-2'', ''flowchart TB; A-->B'')] \<and>
   error_outputs (document (run_pass (\<lambda>i t. Rejected (ErrorObject ''bad syntax''))
     (page one_block))) 0 = [3] \<and>
   error_outputs (document (run_pass (\<lambda>i t. Rejected (ErrorObject ''bad syntax''))
     (run_pass (\<lambda>i t. Rejected (ErrorObject ''bad syntax'')) (page one_block)))) 0 = [4, 3]"
  by code_simp

text \<open>
  The markup of a diagram is parsed into the container, so a block inside it is a block of
  the page: after a first call whose render produced such markup, a second call finds that
  block and renders it.
\<close>

lemma block_in_markup_rendered:
  "render_calls (trace (run_pass (\<lambda>i t. Resolved svg_with_block) (page one_block))) =
     [(''mermaid-diagram-1'', ''flowchart TB; A-->B'')] \<and>
   render_calls (trace (run_pass (\<lambda>i t. Resolved svg_ok)
     (run_pass (\<lambda>i t. Resolved svg_with_block) (page one_block)))) =
     [(''mermaid-diagram-1'', ''flowchart TB; A-->B''),
      (''mermaid-diagram-2'', ''graph TD; X-->Y'')]"
  by code_simp

text \<open>
  C6, as amended. Take a call that starts with an empty Rendering Set on a bound container
  whose tree the search explores in full, and let it run on its own to its end (each
  render settles and the call resumes before any other call starts and before the host
  changes the document; such a run is one of the runs of the system), with every render
  succeeding and no markup holding an element that the selector \<open>code.language-mermaid\<close>
  matches. A second call right after it finds the same code blocks, none of them a
  candidate, and returns with the state as it was: no renderer call, no new element, no
  identifier consumed. So does a second complete run, whatever its renderer would do.
\<close>

theorem second_call_idempotent:
  assumes "containerRef s = Some c" and "renderingRef s = {}"
    and "c < length (document s)"
    and "depth_within (length (document s) - 1) (document s) c"
    and "\<forall>i t. plain (svg i t)"
  shows "processMermaidBlocks (run_pass (\<lambda>i t. Resolved (svg i t)) s) =
      (run_pass (\<lambda>i t. Resolved (svg i t)) s, None) \<and>
    run_pass r (run_pass (\<lambda>i t. Resolved (svg i t)) s) = run_pass (\<lambda>i t. Resolved (svg i t)) s \<and>
    (reachable (s, []) \<longrightarrow> reachable (run_pass (\<lambda>i t. Resolved (svg i t)) s, []))"
proof -
  let ?ok = "\<lambda>i t. Resolved (svg i t)"
  let ?L = "querySelectorAll (document s) c"
  let ?f = "run_pass ?ok s"
  from assms(1) have f: "?f = drive ?ok (scan s ?L)"
    by (simp add: run_pass_def processMermaidBlocks_def)
  from assms(5) have pl: "\<forall>i t. plain_outcome (?ok i t)" by (simp add: plain_outcome_def)
  from drive_grown [OF pl, of s ?L] have g: "grown (document s) (document ?f)"
    and cr: "containerRef ?f = Some c" by (simp_all add: f assms(1))
  from assms(3) have ne: "document s \<noteq> []" by auto
  from querySelectorAll_grown [OF g assms(4) ne]
  have q: "querySelectorAll (document ?f) c = ?L" .
  have "\<forall>b\<in>set ?L. b < length (document s)" by (simp add: querySelectorAll_allocated)
  from drive_done [OF assms(2) this, of svg]
  have "\<forall>b\<in>set ?L. \<not> candidate (document ?f) b" by (simp add: f)
  then have "scan ?f ?L = (?f, None)" by (rule scan_nothing)
  with cr q have p: "processMermaidBlocks ?f = (?f, None)"
    by (simp add: processMermaidBlocks_def)
  then have "run_pass r ?f = ?f" by (simp add: run_pass_def)
  with p run_pass_reachable [of s ?ok] show ?thesis by blast
qed

lemma two_identical_ready:
  "containerRef (page two_identical_blocks) = Some 0 \<and>
   renderingRef (page two_identical_blocks) = {} \<and>
   0 < length (document (page two_identical_blocks)) \<and>
   depth_within (length (document (page two_identical_blocks)) - 1)
     (document (page two_identical_blocks)) 0 \<and>
   plain svg_ok"
  by code_simp

theorem second_call_idempotent_witness:
  "containerRef (page two_identical_blocks) = Some 0 \<and>
   renderingRef (page two_identical_blocks) = {} \<and>
   0 < length (document (page two_identical_blocks)) \<and>
   depth_within (length (document (page two_identical_blocks)) - 1)
     (document (page two_identical_blocks)) 0 \<and>
   plain svg_ok \<and>
   reachable (page two_identical_blocks, []) \<and>
   reachable (run_pass (\<lambda>i t. Resolved svg_ok) (page two_identical_blocks), []) \<and>
   processMermaidBlocks (run_pass (\<lambda>i t. Resolved svg_ok) (page two_identical_blocks)) =
     (run_pass (\<lambda>i t. Resolved svg_ok) (page two_identical_blocks), None) \<and>
   run_pass (\<lambda>i t. Rejected OtherValue)
     (run_pass (\<lambda>i t. Resolved svg_ok) (page two_identical_blocks)) =
     run_pass (\<lambda>i t. Resolved svg_ok) (page two_identical_blocks)"
proof -
  note f = two_identical_ready
  from f have h: "containerRef (page two_identical_blocks) = Some 0"
    "renderingRef (page two_identical_blocks) = {}"
    "0 < length (document (page two_identical_blocks))"
    "depth_within (length (document (page two_identical_blocks)) - 1)
       (document (page two_identical_blocks)) 0" by blast+
  from f have "plain svg_ok" by blast
  then have h5: "\<forall>i t. plain ((\<lambda>i t. svg_ok) (i :: string) (t :: string))" by simp
  have r0: "reachable (page two_identical_blocks, [])"
    by (rule reachable.initial) (simp_all add: page_def)
  from second_call_idempotent [OF h h5, of "\<lambda>i t. Rejected OtherValue"] f r0
  show ?thesis by blast
qed

end
